theory Spec2Isabelle
  imports Complex_Main "HOL-Library.Word"
begin

section \<open>Strings of the host language\<close>

text \<open>
  A JavaScript string is a finite sequence of 16-bit code units. Job numbers, notes,
  identifiers, storage keys and the stored texts are all such strings. \<open>js\<close> embeds an
  ASCII literal.
\<close>

type_synonym jsstring = "16 word list"

definition js :: "string \<Rightarrow> jsstring" where
  "js s = map of_char s"

text \<open>
  \<open>String.prototype.trim\<close> removes, at both ends, the code units that ECMAScript calls
  WhiteSpace or LineTerminator: U+0009..U+000D, U+0020, U+00A0, U+1680, U+2000..U+200A,
  U+2028, U+2029, U+202F, U+205F, U+3000 and U+FEFF.
\<close>

definition isWhiteSpace :: "16 word \<Rightarrow> bool" where
  "isWhiteSpace c =
     (let n = unat c in
        (9 \<le> n \<and> n \<le> 13) \<or> n = 32 \<or> n = 160 \<or> n = 5760 \<or> (8192 \<le> n \<and> n \<le> 8202)
        \<or> n = 8232 \<or> n = 8233 \<or> n = 8239 \<or> n = 8287 \<or> n = 12288 \<or> n = 65279)"

definition trim :: "jsstring \<Rightarrow> jsstring" where
  "trim s = rev (dropWhile isWhiteSpace (rev (dropWhile isWhiteSpace s)))"

subsection \<open>Numbers as text\<close>

text \<open>
  Timestamps are integer milliseconds and durations integer seconds, held by the host as
  floating-point numbers; they are modelled as \<open>int\<close>. The model is exact where the
  host's arithmetic is: for \<open>\<bar>x\<bar> < 2^53\<close>, \<open>Math.floor (x / 1000)\<close> is \<open>x div 1000\<close>, which
  rounds towards minus infinity as \<open>Math.floor\<close> does. What is proved about the value of
  a duration carries that bound. \<open>showInt\<close> is the decimal text that both string
  concatenation and \<open>JSON.stringify\<close> produce for such a number.
\<close>

definition digitUnit :: "nat \<Rightarrow> 16 word" where
  "digitUnit d = of_nat (48 + d)"

fun showNat :: "nat \<Rightarrow> jsstring" where
  "showNat n = (if n < 10 then [digitUnit n] else showNat (n div 10) @ [digitUnit (n mod 10)])"

declare showNat.simps [simp del]

definition showInt :: "int \<Rightarrow> jsstring" where
  "showInt i = (if i < 0 then 0x2D # showNat (nat (- i)) else showNat (nat i))"

section \<open>Data model\<close>

text \<open>
  The active session is the object \<open>{ jobNumber, startTimestamp }\<close>; an entry carries the
  same two fields and four more, so it is modelled as an extension of the session record.
  The fields \<open>id\<close> and \<open>notes\<close> of the source are called \<open>entryId\<close> and \<open>entryNotes\<close> here.
\<close>

record activeSession =
  jobNumber :: jsstring
  startTimestamp :: int

record entry = activeSession +
  entryId :: jsstring
  endTimestamp :: int
  durationSeconds :: int
  entryNotes :: jsstring

text \<open>The four state cells of the component that the handlers read and write.\<close>

record app =
  entries :: "entry list"
  activeJob :: "activeSession option"
  jobInput :: jsstring
  notesInput :: jsstring

text \<open>
  The environment of the component: the clock behind \<open>Date.now()\<close>, the generator behind
  \<open>crypto.randomUUID()\<close>, and the key-value store \<open>localStorage\<close>. The clock and the
  generator are arbitrary sequences of results together with the number of calls made so
  far; nothing is assumed about them, in particular not that the clock is monotonic. The
  store is a finite map from keys to texts that accepts every read and write.
\<close>

record world =
  clock :: "nat \<Rightarrow> int"
  clockReads :: nat
  uuidSource :: "nat \<Rightarrow> jsstring"
  uuidReads :: nat
  localStorage :: "jsstring \<rightharpoonup> jsstring"

definition Date_now :: "world \<Rightarrow> int \<times> world" where
  "Date_now w = (clock w (clockReads w), w\<lparr>clockReads := Suc (clockReads w)\<rparr>)"

definition randomUUID :: "world \<Rightarrow> jsstring \<times> world" where
  "randomUUID w = (uuidSource w (uuidReads w), w\<lparr>uuidReads := Suc (uuidReads w)\<rparr>)"

definition STORAGE_ENTRIES :: jsstring where
  "STORAGE_ENTRIES = js ''tt_entries''"

definition STORAGE_ACTIVE :: jsstring where
  "STORAGE_ACTIVE = js ''tt_active''"

section \<open>Writing the state as text\<close>

text \<open>
  \<open>JSON.stringify\<close> at the two types it is called at. A string is quoted as
  QuoteJSONString does: the two-character escapes for backspace, tab, line feed, form feed,
  carriage return, the double quote and the backslash; \<open>\uXXXX\<close> with lower-case digits for
  the other code units below U+0020 and for a surrogate that is not part of a pair; every
  other code unit as it is.
\<close>

definition hexDigit :: "nat \<Rightarrow> 16 word" where
  "hexDigit d = (if d < 10 then of_nat (48 + d) else of_nat (87 + d))"

definition unicodeEscape :: "16 word \<Rightarrow> jsstring" where
  "unicodeEscape c =
     (let n = unat c in
        [0x5C, 0x75, hexDigit (n div 4096), hexDigit (n div 256 mod 16),
         hexDigit (n div 16 mod 16), hexDigit (n mod 16)])"

definition isLeadSurrogate :: "16 word \<Rightarrow> bool" where
  "isLeadSurrogate c = (0xD800 \<le> unat c \<and> unat c \<le> 0xDBFF)"

definition isTrailSurrogate :: "16 word \<Rightarrow> bool" where
  "isTrailSurrogate c = (0xDC00 \<le> unat c \<and> unat c \<le> 0xDFFF)"

definition quoteUnit :: "16 word \<Rightarrow> jsstring" where
  "quoteUnit c =
     (let n = unat c in
        if n = 0x08 then [0x5C, 0x62]
        else if n = 0x09 then [0x5C, 0x74]
        else if n = 0x0A then [0x5C, 0x6E]
        else if n = 0x0C then [0x5C, 0x66]
        else if n = 0x0D then [0x5C, 0x72]
        else if n = 0x22 then [0x5C, 0x22]
        else if n = 0x5C then [0x5C, 0x5C]
        else if n < 0x20 \<or> isLeadSurrogate c \<or> isTrailSurrogate c then unicodeEscape c
        else [c])"

fun quoteUnits :: "jsstring \<Rightarrow> jsstring" where
  "quoteUnits [] = []"
| "quoteUnits [c] = quoteUnit c"
| "quoteUnits (c # d # ds) =
     (if isLeadSurrogate c \<and> isTrailSurrogate d then c # d # quoteUnits ds
      else quoteUnit c @ quoteUnits (d # ds))"

definition quoteJSONString :: "jsstring \<Rightarrow> jsstring" where
  "quoteJSONString s = 0x22 # quoteUnits s @ [0x22]"

fun joinWith :: "16 word \<Rightarrow> jsstring list \<Rightarrow> jsstring" where
  "joinWith sep [] = []"
| "joinWith sep [x] = x"
| "joinWith sep (x # y # ys) = x @ sep # joinWith sep (y # ys)"

text \<open>An object is written as its properties in creation order, an array as its elements.\<close>

definition serializeProperty :: "jsstring \<times> jsstring \<Rightarrow> jsstring" where
  "serializeProperty p = quoteJSONString (fst p) @ 0x3A # snd p"

definition serializeObject :: "(jsstring \<times> jsstring) list \<Rightarrow> jsstring" where
  "serializeObject ps = 0x7B # joinWith 0x2C (map serializeProperty ps) @ [0x7D]"

definition serializeArray :: "jsstring list \<Rightarrow> jsstring" where
  "serializeArray xs = 0x5B # joinWith 0x2C xs @ [0x5D]"

definition stringifyActive :: "activeSession \<Rightarrow> jsstring" where
  "stringifyActive a =
     serializeObject
       [(js ''jobNumber'', quoteJSONString (jobNumber a)),
        (js ''startTimestamp'', showInt (startTimestamp a))]"

definition stringifyEntry :: "entry \<Rightarrow> jsstring" where
  "stringifyEntry e =
     serializeObject
       [(js ''id'', quoteJSONString (entryId e)),
        (js ''jobNumber'', quoteJSONString (jobNumber e)),
        (js ''startTimestamp'', showInt (startTimestamp e)),
        (js ''endTimestamp'', showInt (endTimestamp e)),
        (js ''durationSeconds'', showInt (durationSeconds e)),
        (js ''notes'', quoteJSONString (entryNotes e))]"

definition stringifyEntries :: "entry list \<Rightarrow> jsstring" where
  "stringifyEntries es = serializeArray (map stringifyEntry es)"

section \<open>The handlers\<close>

text \<open>
  A handler runs against the state of the last render and calls state setters; the
  component library applies the calls in order afterwards. \<open>SetEntries\<close> carries the
  updater function (a plain value \<open>v\<close> is the updater \<open>\<lambda>_. v\<close>).
\<close>

datatype update =
    SetEntries "entry list \<Rightarrow> entry list"
  | SetActiveJob "activeSession option"
  | SetNotesInput jsstring

fun applyUpdate :: "app \<Rightarrow> update \<Rightarrow> app" where
  "applyUpdate s (SetEntries f) = s\<lparr>entries := f (entries s)\<rparr>"
| "applyUpdate s (SetActiveJob a) = s\<lparr>activeJob := a\<rparr>"
| "applyUpdate s (SetNotesInput n) = s\<lparr>notesInput := n\<rparr>"

text \<open>
  \<open>stopActiveJob\<close>: nothing without a running job; otherwise the clock is read once, the
  entry is built (its id drawn from the generator) and put in front of the list, and the
  active job is cleared. The duration is \<open>Math.floor((now - start) / 1000)\<close>, written as
  the integer quotient, which is what the host computes while \<open>now - start\<close> stays below
  \<open>2^53\<close> in absolute value. The result is the entry (or none), the setter calls, and the
  environment after the reads.
\<close>

definition stopActiveJob ::
  "jsstring \<Rightarrow> app \<Rightarrow> world \<Rightarrow> entry option \<times> update list \<times> world" where
  "stopActiveJob notesArg s w =
     (case activeJob s of
        None \<Rightarrow> (None, [], w)
      | Some a \<Rightarrow>
          (let (now, w1) = Date_now w;
               duration = (now - startTimestamp a) div 1000;
               (uuid, w2) = randomUUID w1;
               e = \<lparr>jobNumber = jobNumber a, startTimestamp = startTimestamp a,
                    entryId = uuid, endTimestamp = now, durationSeconds = duration,
                    entryNotes = trim notesArg\<rparr>
           in (Some e, [SetEntries (\<lambda>prev. e # prev), SetActiveJob None], w2)))"

definition handleStart :: "app \<Rightarrow> world \<Rightarrow> update list \<times> world" where
  "handleStart s w =
     (let job = trim (jobInput s) in
      if job = [] then ([], w)
      else
        (let (us, w1) =
               (if activeJob s \<noteq> None
                then (let (r, us', w') = stopActiveJob (notesInput s) s w in (us', w'))
                else ([], w));
             (now, w2) = Date_now w1
         in (us @ [SetActiveJob (Some \<lparr>jobNumber = job, startTimestamp = now\<rparr>),
                   SetNotesInput []], w2)))"

definition handleStop :: "app \<Rightarrow> world \<Rightarrow> update list \<times> world" where
  "handleStop s w =
     (let (r, us, w1) = stopActiveJob (notesInput s) s w
      in (us @ [SetNotesInput []], w1))"

definition handleDelete :: "jsstring \<Rightarrow> app \<Rightarrow> world \<Rightarrow> update list \<times> world" where
  "handleDelete ident s w = ([SetEntries (filter (\<lambda>e. entryId e \<noteq> ident))], w)"

text \<open>The answer of \<open>window.confirm\<close> is the first argument.\<close>

definition handleClearAll :: "bool \<Rightarrow> app \<Rightarrow> world \<Rightarrow> update list \<times> world" where
  "handleClearAll confirmed s w =
     (if confirmed then ([SetEntries (\<lambda>_. []), SetActiveJob None, SetNotesInput []], w)
      else ([], w))"

subsection \<open>Effects\<close>

text \<open>
  After the setter calls are applied, the two persistence effects run when their
  dependency is a new value: the entries effect after any \<open>setEntries\<close> (every call in the
  source passes a freshly built array), the active-job effect after any \<open>setActiveJob\<close>
  unless the cell was \<open>null\<close> and stays \<open>null\<close>. The elapsed-seconds display and its
  interval timer write none of the four cells and are not modelled.
\<close>

definition persistEntries :: "app \<Rightarrow> world \<Rightarrow> world" where
  "persistEntries s w =
     w\<lparr>localStorage := (localStorage w)(STORAGE_ENTRIES \<mapsto> stringifyEntries (entries s))\<rparr>"

definition persistActive :: "app \<Rightarrow> world \<Rightarrow> world" where
  "persistActive s w =
     (case activeJob s of
        Some a \<Rightarrow> w\<lparr>localStorage := (localStorage w)(STORAGE_ACTIVE \<mapsto> stringifyActive a)\<rparr>
      | None \<Rightarrow> w\<lparr>localStorage := (localStorage w)(STORAGE_ACTIVE := None)\<rparr>)"

fun isSetEntries :: "update \<Rightarrow> bool" where
  "isSetEntries (SetEntries f) = True"
| "isSetEntries u = False"

fun isSetActiveJob :: "update \<Rightarrow> bool" where
  "isSetActiveJob (SetActiveJob a) = True"
| "isSetActiveJob u = False"

definition runEffects :: "app \<Rightarrow> update list \<Rightarrow> app \<Rightarrow> world \<Rightarrow> world" where
  "runEffects old us s w =
     (let w1 = (if list_ex isSetEntries us then persistEntries s w else w)
      in if list_ex isSetActiveJob us \<and> \<not> (activeJob old = None \<and> activeJob s = None)
         then persistActive s w1 else w1)"

definition dispatch :: "(app \<Rightarrow> world \<Rightarrow> update list \<times> world) \<Rightarrow> app \<times> world \<Rightarrow> app \<times> world" where
  "dispatch h sw =
     (let (s, w) = sw;
          (us, w1) = h s w;
          s' = foldl applyUpdate s us
      in (s', runEffects s us s' w1))"

section \<open>Daily summary\<close>

text \<open>
  What the summary takes from the host and the source does not fix: the local calendar
  behind \<open>new Date(ts).getFullYear()\<close>, \<open>getMonth()\<close> and \<open>getDate()\<close> (time zone and
  daylight saving included), the collation behind \<open>String.prototype.localeCompare\<close>, and
  the text that a built-in function of \<open>Object.prototype\<close> turns into when it is added to
  a number.
\<close>

record platform =
  getFullYear :: "int \<Rightarrow> int"
  getMonth :: "int \<Rightarrow> int"
  getDate :: "int \<Rightarrow> int"
  localeCompare :: "jsstring \<Rightarrow> jsstring \<Rightarrow> int"
  functionText :: "jsstring \<Rightarrow> jsstring"





text \<open>
  \<open>dailyTotal\<close> and \<open>jobTotals\<close> are memoised on \<open>[todayEntries]\<close> and their computations
  read nothing else, so the values the component holds are always those of the
  \<open>todayEntries\<close> it holds; they are functions of that list here.
\<close>

definition dailyTotal :: "entry list \<Rightarrow> int" where
  "dailyTotal today = foldl (\<lambda>sum e. sum + durationSeconds e) 0 today"

subsection \<open>Totals per job\<close>

text \<open>
  The totals are collected in an object created by the literal \<open>{}\<close>. Its own properties
  are kept here in creation order; a value is a number, or a string once a sum has turned
  into text. The object inherits from \<open>Object.prototype\<close>: reading a name that is not an own
  property finds the built-in function of that name, if there is one, and reading
  \<open>__proto__\<close> finds \<open>Object.prototype\<close> itself.
\<close>

datatype jsval = Num int | Str jsstring

definition objectPrototypeFunctions :: "jsstring list" where
  "objectPrototypeFunctions =
     map js [''constructor'', ''__defineGetter__'', ''__defineSetter__'', ''hasOwnProperty'',
       ''__lookupGetter__'', ''__lookupSetter__'', ''isPrototypeOf'', ''propertyIsEnumerable'',
       ''toString'', ''valueOf'', ''toLocaleString'']"

fun setProperty :: "jsstring \<Rightarrow> 'v \<Rightarrow> (jsstring \<times> 'v) list \<Rightarrow> (jsstring \<times> 'v) list" where
  "setProperty k v [] = [(k, v)]"
| "setProperty k v (p # ps) = (if fst p = k then (k, v) # ps else p # setProperty k v ps)"

text \<open>
  One step of the loop, \<open>map[e.jobNumber] = (map[e.jobNumber] || 0) + e.durationSeconds\<close>.
  An own number is added to (a zero is falsy and replaced by the number zero). An own
  string is appended to, unless it is empty and so falsy. For \<open>__proto__\<close> the value read
  is an object, the sum is a string, and the inherited setter ignores a string: the
  object stays as it is. For the name of an inherited function the sum is the text of the
  function followed by the digits, stored as a new own property. For any other name the
  value read is \<open>undefined\<close> and the duration is stored.
\<close>

definition addDuration :: "platform \<Rightarrow> (jsstring \<times> jsval) list \<Rightarrow> entry \<Rightarrow> (jsstring \<times> jsval) list" where
  "addDuration P m e =
     (let k = jobNumber e; d = durationSeconds e in
      if k = js ''__proto__'' then m
      else
        (case map_of m k of
           Some (Num n) \<Rightarrow> setProperty k (Num ((if n = 0 then 0 else n) + d)) m
         | Some (Str t) \<Rightarrow>
             setProperty k (if t = [] then Num (0 + d) else Str (t @ showInt d)) m
         | None \<Rightarrow>
             if k \<in> set objectPrototypeFunctions
             then setProperty k (Str (functionText P k @ showInt d)) m
             else setProperty k (Num (0 + d)) m))"

text \<open>
  \<open>Object.entries\<close> lists the own properties: first those whose name is an array index
  (the canonical decimal text of a number below \<open>2^32 - 1\<close>) by ascending number, then
  the others in creation order.
\<close>

definition digitsValue :: "jsstring \<Rightarrow> nat" where
  "digitsValue k = foldl (\<lambda>a c. 10 * a + (unat c - 48)) 0 k"

definition isArrayIndex :: "jsstring \<Rightarrow> bool" where
  "isArrayIndex k =
     (if k \<noteq> [] \<and> list_all (\<lambda>c. 48 \<le> unat c \<and> unat c \<le> 57) k
      then showNat (digitsValue k) = k \<and> digitsValue k < 4294967295
      else False)"

definition objectEntries :: "(jsstring \<times> jsval) list \<Rightarrow> (jsstring \<times> jsval) list" where
  "objectEntries m =
     sort_key (\<lambda>p. digitsValue (fst p)) (filter (\<lambda>p. isArrayIndex (fst p)) m)
     @ filter (\<lambda>p. \<not> isArrayIndex (fst p)) m"

text \<open>
  \<open>.sort(([a], [b]) => a.localeCompare(b))\<close>: the sort is stable, and with a consistent
  comparison every stable sort gives the result of this insertion sort.
\<close>

fun insertEntry :: "platform \<Rightarrow> jsstring \<times> jsval \<Rightarrow> (jsstring \<times> jsval) list \<Rightarrow> (jsstring \<times> jsval) list" where
  "insertEntry P x [] = [x]"
| "insertEntry P x (y # ys) =
     (if localeCompare P (fst x) (fst y) \<le> 0 then x # y # ys else y # insertEntry P x ys)"

definition sortEntries :: "platform \<Rightarrow> (jsstring \<times> jsval) list \<Rightarrow> (jsstring \<times> jsval) list" where
  "sortEntries P xs = foldr (insertEntry P) xs []"

definition jobTotals :: "platform \<Rightarrow> entry list \<Rightarrow> (jsstring \<times> jsval) list" where
  "jobTotals P today = sortEntries P (objectEntries (foldl (addDuration P) [] today))"

subsection \<open>A sample host\<close>

text \<open>
  A host in the UTC time zone that compares strings by code units, for evaluating the
  summary at concrete inputs. The calendar is the proleptic Gregorian one, computed from
  the day number since 1970-01-01.
\<close>

definition civilFromDays :: "int \<Rightarrow> int \<times> int \<times> int" where
  "civilFromDays days =
     (let z = days + 719468;
          era = z div 146097;
          doe = z mod 146097;
          yoe = (doe - doe div 1460 + doe div 36524 - doe div 146096) div 365;
          doy = doe - (365 * yoe + yoe div 4 - yoe div 100);
          mp = (5 * doy + 2) div 153;
          d = doy - (153 * mp + 2) div 5 + 1;
          m = (if mp < 10 then mp + 3 else mp - 9);
          y = yoe + era * 400 + (if m \<le> 2 then 1 else 0)
      in (y, m, d))"

fun codeUnitCompare :: "jsstring \<Rightarrow> jsstring \<Rightarrow> int" where
  "codeUnitCompare [] [] = 0"
| "codeUnitCompare [] (y # ys) = - 1"
| "codeUnitCompare (x # xs) [] = 1"
| "codeUnitCompare (x # xs) (y # ys) =
     (if unat x < unat y then - 1 else if unat y < unat x then 1 else codeUnitCompare xs ys)"

definition utcHost :: platform where
  "utcHost =
     \<lparr>getFullYear = (\<lambda>ts. fst (civilFromDays (ts div 86400000))),
      getMonth = (\<lambda>ts. fst (snd (civilFromDays (ts div 86400000))) - 1),
      getDate = (\<lambda>ts. snd (snd (civilFromDays (ts div 86400000)))),
      localeCompare = codeUnitCompare,
      functionText = (\<lambda>k. js ''function '' @ (if k = js ''constructor'' then js ''Object'' else k)
                          @ js ''() { [native code] }'')\<rparr>"


text \<open>
  For adding up per-job totals: the number of seconds a total stands for. A total that
  has become a string does not stand for a number and counts as zero.
\<close>

definition secondsOf :: "jsval \<Rightarrow> int" where
  "secondsOf v = (case v of Num n \<Rightarrow> n | Str t \<Rightarrow> 0)"

section \<open>Reading the state back\<close>

text \<open>
  The values that \<open>JSON.parse\<close> can return. A number is kept as the exact value of its
  decimal literal (the host rounds it to a floating-point number, which changes nothing
  for the integers of this program). An object lists its properties in the order of
  their first occurrence in the text; a repeated name keeps its place and takes the last
  value.
\<close>

datatype json =
    JNull
  | JBool bool
  | JNum rat
  | JStr jsstring
  | JArr "json list"
  | JObj "(jsstring \<times> json) list"

definition isJsonSpace :: "16 word \<Rightarrow> bool" where
  "isJsonSpace c = (unat c = 0x20 \<or> unat c = 0x09 \<or> unat c = 0x0A \<or> unat c = 0x0D)"

definition skipSpace :: "jsstring \<Rightarrow> jsstring" where
  "skipSpace s = dropWhile isJsonSpace s"

definition isDigit :: "16 word \<Rightarrow> bool" where
  "isDigit c = (48 \<le> unat c \<and> unat c \<le> 57)"

subsection \<open>Strings\<close>

definition hexValue :: "16 word \<Rightarrow> nat option" where
  "hexValue c =
     (let n = unat c in
        if 48 \<le> n \<and> n \<le> 57 then Some (n - 48)
        else if 97 \<le> n \<and> n \<le> 102 then Some (n - 87)
        else if 65 \<le> n \<and> n \<le> 70 then Some (n - 55)
        else None)"

definition simpleEscape :: "16 word \<Rightarrow> 16 word option" where
  "simpleEscape e =
     (let n = unat e in
        if n = 0x22 then Some 0x22
        else if n = 0x5C then Some 0x5C
        else if n = 0x2F then Some 0x2F
        else if n = 0x62 then Some 0x08
        else if n = 0x66 then Some 0x0C
        else if n = 0x6E then Some 0x0A
        else if n = 0x72 then Some 0x0D
        else if n = 0x74 then Some 0x09
        else None)"

definition consResult :: "'a \<Rightarrow> ('a list \<times> 'b) option \<Rightarrow> ('a list \<times> 'b) option" where
  "consResult x r = (case r of None \<Rightarrow> None | Some (xs, rest) \<Rightarrow> Some (x # xs, rest))"

text \<open>
  The code units of a string after its opening quote, up to the closing quote: an escape
  is decoded, a code unit below U+0020 is refused, any other code unit stands for itself.
  The result is the string and the text after the closing quote.
\<close>

fun parseChars :: "jsstring \<Rightarrow> (jsstring \<times> jsstring) option" where
  "parseChars [] = None"
| "parseChars (c # cs) =
     (if unat c = 0x22 then Some ([], cs)
      else if unat c = 0x5C then
        (case cs of
           [] \<Rightarrow> None
         | e # r \<Rightarrow>
             if unat e = 0x75 then
               (case r of
                  h1 # h2 # h3 # h4 # r' \<Rightarrow>
                    (case (hexValue h1, hexValue h2, hexValue h3, hexValue h4) of
                       (Some a, Some b, Some c', Some d) \<Rightarrow>
                         consResult (of_nat (4096 * a + 256 * b + 16 * c' + d)) (parseChars r')
                     | _ \<Rightarrow> None)
                | _ \<Rightarrow> None)
             else
               (case simpleEscape e of
                  None \<Rightarrow> None
                | Some u \<Rightarrow> consResult u (parseChars r)))
      else if unat c < 0x20 then None
      else consResult c (parseChars cs))"

subsection \<open>Numbers\<close>

text \<open>
  A number is an optional minus sign, an integer part without a superfluous leading zero,
  an optional fraction and an optional exponent.
\<close>

definition parseFraction :: "jsstring \<Rightarrow> (jsstring \<times> jsstring) option" where
  "parseFraction s =
     (case s of
        [] \<Rightarrow> Some ([], [])
      | c # r \<Rightarrow>
          if unat c = 0x2E then
            (if takeWhile isDigit r = [] then None
             else Some (takeWhile isDigit r, dropWhile isDigit r))
          else Some ([], s))"

definition parseExponent :: "jsstring \<Rightarrow> (int \<times> jsstring) option" where
  "parseExponent s =
     (case s of
        [] \<Rightarrow> Some (0, [])
      | c # r \<Rightarrow>
          if unat c = 0x65 \<or> unat c = 0x45 then
            (let (sgn, r1) =
                   (case r of
                      [] \<Rightarrow> (1, r)
                    | d # r' \<Rightarrow>
                        if unat d = 0x2B then (1, r')
                        else if unat d = 0x2D then (- 1, r')
                        else (1, r))
             in if takeWhile isDigit r1 = [] then None
                else Some (sgn * int (digitsValue (takeWhile isDigit r1)), dropWhile isDigit r1))
          else Some (0, s))"

definition parseNumber :: "jsstring \<Rightarrow> (rat \<times> jsstring) option" where
  "parseNumber s =
     (let (neg, s1) =
            (case s of
               [] \<Rightarrow> (False, s)
             | c # r \<Rightarrow> if unat c = 0x2D then (True, r) else (False, s));
          ip = takeWhile isDigit s1
      in if ip = [] \<or> (1 < length ip \<and> unat (hd ip) = 48) then None
         else
           (case parseFraction (dropWhile isDigit s1) of
              None \<Rightarrow> None
            | Some (fd, s3) \<Rightarrow>
                (case parseExponent s3 of
                   None \<Rightarrow> None
                 | Some (ex, s4) \<Rightarrow>
                     Some ((if neg then - 1 else 1)
                           * (of_nat (digitsValue ip) + of_nat (digitsValue fd) / 10 ^ length fd)
                           * (if ex < 0 then 1 / 10 ^ nat (- ex) else 10 ^ nat ex),
                           s4))))"

subsection \<open>Values\<close>

fun stripPrefix :: "jsstring \<Rightarrow> jsstring \<Rightarrow> jsstring option" where
  "stripPrefix [] s = Some s"
| "stripPrefix (p # ps) [] = None"
| "stripPrefix (p # ps) (c # cs) = (if p = c then stripPrefix ps cs else None)"

definition buildObject :: "(jsstring \<times> json) list \<Rightarrow> json" where
  "buildObject ms = JObj (foldl (\<lambda>obj m. setProperty (fst m) (snd m) obj) [] ms)"

text \<open>
  Recursive descent. The first argument bounds the depth of the calls; \<open>JSON_parse\<close>
  starts with more than the length of the text, which no well-formed text can use up:
  every call is paid for by a code unit of its own (a value by its first code unit, the
  elements or members that follow by their closing bracket or by the comma before them).
  A text that is not well-formed gives \<open>None\<close> in any case.
\<close>

fun parseValue :: "nat \<Rightarrow> jsstring \<Rightarrow> (json \<times> jsstring) option"
  and parseElements :: "nat \<Rightarrow> jsstring \<Rightarrow> (json list \<times> jsstring) option"
  and parseMembers :: "nat \<Rightarrow> jsstring \<Rightarrow> ((jsstring \<times> json) list \<times> jsstring) option"
where
  "parseValue 0 s = None"
| "parseValue (Suc n) s =
     (case skipSpace s of
        [] \<Rightarrow> None
      | c # cs \<Rightarrow>
          if unat c = 0x7B then
            (case skipSpace cs of
               [] \<Rightarrow> None
             | d # ds \<Rightarrow>
                 if unat d = 0x7D then Some (JObj [], ds)
                 else (case parseMembers n cs of
                         None \<Rightarrow> None
                       | Some (ms, r) \<Rightarrow> Some (buildObject ms, r)))
          else if unat c = 0x5B then
            (case skipSpace cs of
               [] \<Rightarrow> None
             | d # ds \<Rightarrow>
                 if unat d = 0x5D then Some (JArr [], ds)
                 else (case parseElements n cs of
                         None \<Rightarrow> None
                       | Some (vs, r) \<Rightarrow> Some (JArr vs, r)))
          else if unat c = 0x22 then
            (case parseChars cs of
               None \<Rightarrow> None
             | Some (t, r) \<Rightarrow> Some (JStr t, r))
          else if unat c = 0x2D \<or> isDigit c then
            (case parseNumber (c # cs) of
               None \<Rightarrow> None
             | Some (x, r) \<Rightarrow> Some (JNum x, r))
          else
            (case stripPrefix (js ''null'') (c # cs) of
               Some r \<Rightarrow> Some (JNull, r)
             | None \<Rightarrow>
                 (case stripPrefix (js ''true'') (c # cs) of
                    Some r \<Rightarrow> Some (JBool True, r)
                  | None \<Rightarrow>
                      (case stripPrefix (js ''false'') (c # cs) of
                         Some r \<Rightarrow> Some (JBool False, r)
                       | None \<Rightarrow> None))))"
| "parseElements 0 s = None"
| "parseElements (Suc n) s =
     (case parseValue n s of
        None \<Rightarrow> None
      | Some (v, r) \<Rightarrow>
          (case skipSpace r of
             [] \<Rightarrow> None
           | d # ds \<Rightarrow>
               if unat d = 0x2C then consResult v (parseElements n ds)
               else if unat d = 0x5D then Some ([v], ds)
               else None))"
| "parseMembers 0 s = None"
| "parseMembers (Suc n) s =
     (case skipSpace s of
        [] \<Rightarrow> None
      | q # cs \<Rightarrow>
          if unat q \<noteq> 0x22 then None
          else
            (case parseChars cs of
               None \<Rightarrow> None
             | Some (k, r) \<Rightarrow>
                 (case skipSpace r of
                    [] \<Rightarrow> None
                  | colon # r1 \<Rightarrow>
                      if unat colon \<noteq> 0x3A then None
                      else
                        (case parseValue n r1 of
                           None \<Rightarrow> None
                         | Some (v, r2) \<Rightarrow>
                             (case skipSpace r2 of
                                [] \<Rightarrow> None
                              | d # ds \<Rightarrow>
                                  if unat d = 0x2C then consResult (k, v) (parseMembers n ds)
                                  else if unat d = 0x7D then Some ([(k, v)], ds)
                                  else None)))))"

text \<open>\<open>JSON.parse\<close>: one value with nothing but white space after it; \<open>None\<close> is the exception.\<close>

definition JSON_parse :: "jsstring \<Rightarrow> json option" where
  "JSON_parse s =
     (case parseValue (Suc (length s)) s of
        None \<Rightarrow> None
      | Some (v, r) \<Rightarrow> if skipSpace r = [] then Some v else None)"

text \<open>
  \<open>load\<close>: a missing record (\<open>getItem\<close> gives \<open>null\<close>) and an empty text are falsy and give
  the fallback, as does a text at which \<open>JSON.parse\<close> throws; any other text gives the
  parsed value, whatever it is.
\<close>

definition load :: "jsstring \<Rightarrow> json \<Rightarrow> world \<Rightarrow> json" where
  "load key fallback w =
     (case localStorage w key of
        None \<Rightarrow> fallback
      | Some raw \<Rightarrow>
          if raw = [] then fallback
          else (case JSON_parse raw of None \<Rightarrow> fallback | Some v \<Rightarrow> v))"

text \<open>
  The initial values of the two persisted cells, \<open>useState(() => load(STORAGE.ENTRIES, []))\<close>
  and \<open>useState(() => load(STORAGE.ACTIVE, null))\<close>.
\<close>

definition initialEntries :: "world \<Rightarrow> json" where
  "initialEntries w = load STORAGE_ENTRIES (JArr []) w"

definition initialActiveJob :: "world \<Rightarrow> json" where
  "initialActiveJob w = load STORAGE_ACTIVE JNull w"

text \<open>The state cells as host values: what an entry, the entries list and the active job are
  as objects, arrays and \<open>null\<close>.\<close>

definition activeJson :: "activeSession \<Rightarrow> json" where
  "activeJson a =
     JObj [(js ''jobNumber'', JStr (jobNumber a)),
           (js ''startTimestamp'', JNum (of_int (startTimestamp a)))]"

definition activeCellJson :: "activeSession option \<Rightarrow> json" where
  "activeCellJson c = (case c of None \<Rightarrow> JNull | Some a \<Rightarrow> activeJson a)"

definition entryJson :: "entry \<Rightarrow> json" where
  "entryJson e =
     JObj [(js ''id'', JStr (entryId e)),
           (js ''jobNumber'', JStr (jobNumber e)),
           (js ''startTimestamp'', JNum (of_int (startTimestamp e))),
           (js ''endTimestamp'', JNum (of_int (endTimestamp e))),
           (js ''durationSeconds'', JNum (of_int (durationSeconds e))),
           (js ''notes'', JStr (entryNotes e))]"

definition entriesJson :: "entry list \<Rightarrow> json" where
  "entriesJson es = JArr (map entryJson es)"

section \<open>Sample states\<close>

text \<open>Concrete states and environments at which the theorems below are evaluated.\<close>

definition sampleWorld :: world where
  "sampleWorld =
     \<lparr>clock = (\<lambda>n. 1700000060000 + 65000 * int n), clockReads = 0,
      uuidSource = (\<lambda>n. js ''entry-'' @ showNat n), uuidReads = 0,
      localStorage = Map.empty\<rparr>"

definition sampleRunning :: app where
  "sampleRunning =
     \<lparr>entries = [],
      activeJob = Some \<lparr>jobNumber = js ''JOB-1'', startTimestamp = 1700000000000\<rparr>,
      jobInput = js '' JOB-2'', notesInput = js ''wiring ''\<rparr>"

definition earlyClockWorld :: world where
  "earlyClockWorld = sampleWorld\<lparr>clock := (\<lambda>n. 1699999995500)\<rparr>"

definition sampleHistory :: app where
  "sampleHistory =
     sampleRunning\<lparr>entries :=
       [\<lparr>jobNumber = js ''JOB-7'', startTimestamp = 1699999000000, entryId = js ''b'',
         endTimestamp = 1699999300000, durationSeconds = 300, entryNotes = []\<rparr>,
        \<lparr>jobNumber = js ''JOB-1'', startTimestamp = 1699990000000, entryId = js ''a'',
         endTimestamp = 1699990600000, durationSeconds = 600, entryNotes = js ''setup''\<rparr>]\<rparr>"

definition blankInput :: app where
  "blankInput = sampleRunning\<lparr>jobInput := [0x20, 0x09, 0xA0, 0x3000]\<rparr>"

definition protoEntry :: entry where
  "protoEntry =
     \<lparr>jobNumber = js ''__proto__'', startTimestamp = 1700000000000, entryId = js ''p'',
      endTimestamp = 1700000300000, durationSeconds = 300, entryNotes = []\<rparr>"

definition constructorEntry :: entry where
  "constructorEntry =
     \<lparr>jobNumber = js ''constructor'', startTimestamp = 1700000000000, entryId = js ''c'',
      endTimestamp = 1700000300000, durationSeconds = 300, entryNotes = []\<rparr>"

definition jobOneEntry :: entry where
  "jobOneEntry =
     \<lparr>jobNumber = js ''JOB-1'', startTimestamp = 1700000400000, entryId = js ''j'',
      endTimestamp = 1700001000000, durationSeconds = 600, entryNotes = []\<rparr>"


definition malformedStore :: world where
  "malformedStore = sampleWorld\<lparr>localStorage := [STORAGE_ENTRIES \<mapsto> js ''[1,2'']\<rparr>"

definition wrongShapeStore :: world where
  "wrongShapeStore =
     sampleWorld\<lparr>localStorage := [STORAGE_ENTRIES \<mapsto> js ''{}'', STORAGE_ACTIVE \<mapsto> js ''{}'']\<rparr>"




section \<open>Properties of the handlers\<close>

lemma dropWhile_all: "\<forall>c\<in>set j. P c \<Longrightarrow> dropWhile P j = []"
  by (induction j) auto

lemma trim_blank: "\<forall>c\<in>set j. isWhiteSpace c \<Longrightarrow> trim j = []"
  by (simp only: trim_def dropWhile_all rev.simps dropWhile.simps)

lemma trim_blank_iff: "trim j = [] \<longleftrightarrow> (\<forall>c\<in>set j. isWhiteSpace c)"
proof
  assume t: "trim j = []"
  have "dropWhile isWhiteSpace j = []"
  proof (rule ccontr)
    assume ne: "dropWhile isWhiteSpace j \<noteq> []"
    then have "\<not> isWhiteSpace (hd (dropWhile isWhiteSpace j))"
      by (rule hd_dropWhile)
    moreover have "hd (dropWhile isWhiteSpace j) \<in> set (rev (dropWhile isWhiteSpace j))"
      using ne by simp
    moreover from t have "\<forall>c \<in> set (rev (dropWhile isWhiteSpace j)). isWhiteSpace c"
      unfolding trim_def by (simp only: rev_is_Nil_conv dropWhile_eq_Nil_conv)
    ultimately show False by blast
  qed
  then show "\<forall>c\<in>set j. isWhiteSpace c"
    by (simp only: dropWhile_eq_Nil_conv)
next
  assume "\<forall>c\<in>set j. isWhiteSpace c"
  then show "trim j = []" by (rule trim_blank)
qed

lemma stop_running:
  "activeJob s = Some a \<Longrightarrow>
   stopActiveJob n s w =
     (let e = \<lparr>jobNumber = jobNumber a, startTimestamp = startTimestamp a,
               entryId = uuidSource w (uuidReads w), endTimestamp = clock w (clockReads w),
               durationSeconds = (clock w (clockReads w) - startTimestamp a) div 1000,
               entryNotes = trim n\<rparr>
      in (Some e, [SetEntries (\<lambda>prev. e # prev), SetActiveJob None],
          w\<lparr>clockReads := Suc (clockReads w), uuidReads := Suc (uuidReads w)\<rparr>))"
  by (simp add: stopActiveJob_def Date_now_def randomUUID_def Let_def)

lemma stop_idle: "activeJob s = None \<Longrightarrow> stopActiveJob n s w = (None, [], w)"
  by (simp add: stopActiveJob_def)

lemma storage_keys_differ: "STORAGE_ENTRIES \<noteq> STORAGE_ACTIVE"
  by (simp add: STORAGE_ENTRIES_def STORAGE_ACTIVE_def js_def)

lemma dispatch_stop_running:
  assumes "activeJob s = Some a"
  shows "fst (dispatch handleStop (s, w)) =
     s\<lparr>entries := \<lparr>jobNumber = jobNumber a, startTimestamp = startTimestamp a,
               entryId = uuidSource w (uuidReads w), endTimestamp = clock w (clockReads w),
               durationSeconds = (clock w (clockReads w) - startTimestamp a) div 1000,
               entryNotes = trim (notesInput s)\<rparr> # entries s, activeJob := None, notesInput := []\<rparr>"
  using assms by (simp add: dispatch_def handleStop_def stop_running Let_def)

lemma dispatch_start_running:
  assumes "activeJob s = Some a" and "trim (jobInput s) \<noteq> []"
  shows "fst (dispatch handleStart (s, w)) =
     s\<lparr>entries := \<lparr>jobNumber = jobNumber a, startTimestamp = startTimestamp a,
               entryId = uuidSource w (uuidReads w), endTimestamp = clock w (clockReads w),
               durationSeconds = (clock w (clockReads w) - startTimestamp a) div 1000,
               entryNotes = trim (notesInput s)\<rparr> # entries s,
       activeJob := Some \<lparr>jobNumber = trim (jobInput s),
                             startTimestamp = clock w (Suc (clockReads w))\<rparr>,
       notesInput := []\<rparr>"
  using assms by (simp add: dispatch_def handleStart_def stop_running Let_def Date_now_def)

lemma switch_equiv:
  assumes "activeJob s = Some a" and "trim (jobInput s) \<noteq> []"
  shows "dispatch handleStart (s, w) = dispatch handleStart (dispatch handleStop (s, w))"
  using assms
  by (simp add: dispatch_def handleStart_def handleStop_def stop_running stop_idle Let_def
     runEffects_def persistEntries_def persistActive_def Date_now_def)

lemma sample_job: "trim (jobInput sampleRunning) = js ''JOB-2''"
  by (simp add: sampleRunning_def trim_def js_def isWhiteSpace_def)

lemma sample_notes: "trim (notesInput sampleRunning) = js ''wiring''"
  by (simp add: sampleRunning_def trim_def js_def isWhiteSpace_def)

lemma stringifyEntries_Nil: "stringifyEntries [] = js ''[]''"
  by (simp add: stringifyEntries_def serializeArray_def js_def)

text \<open>
  Write-through: when the store holds the text of the state before a handler runs, it
  holds the text of the new state afterwards.
\<close>

lemma dispatch_keeps_store:
  assumes "localStorage w STORAGE_ENTRIES = Some (stringifyEntries (entries s))"
    and "localStorage w STORAGE_ACTIVE = map_option stringifyActive (activeJob s)"
    and "h = handleStart \<or> h = handleStop \<or> h = handleDelete i \<or> h = handleClearAll b"
  shows "localStorage (snd (dispatch h (s, w))) STORAGE_ENTRIES
      = Some (stringifyEntries (entries (fst (dispatch h (s, w)))))
    \<and> localStorage (snd (dispatch h (s, w))) STORAGE_ACTIVE
      = map_option stringifyActive (activeJob (fst (dispatch h (s, w))))"
proof -
  have k: "STORAGE_ACTIVE \<noteq> STORAGE_ENTRIES"
    using storage_keys_differ by (rule not_sym)
  from assms(3) consider "h = handleStart" | "h = handleStop" | "h = handleDelete i"
    | "h = handleClearAll b"
    by blast
  then show ?thesis
  proof cases
    case 1
    show ?thesis
      using assms(1,2) unfolding 1
      by (cases "activeJob s")
        (simp_all add: dispatch_def handleStart_def stop_running stop_idle Let_def
          runEffects_def persistEntries_def persistActive_def Date_now_def k storage_keys_differ)
  next
    case 2
    show ?thesis
      using assms(1,2) unfolding 2
      by (cases "activeJob s")
        (simp_all add: dispatch_def handleStop_def stop_running stop_idle Let_def
          runEffects_def persistEntries_def persistActive_def k storage_keys_differ)
  next
    case 3
    show ?thesis
      using assms(1,2) unfolding 3
      by (simp add: dispatch_def handleDelete_def Let_def runEffects_def persistEntries_def k)
  next
    case 4
    show ?thesis
      using assms(1,2) unfolding 4
      by (cases "activeJob s")
        (simp_all add: dispatch_def handleClearAll_def Let_def
          runEffects_def persistEntries_def persistActive_def k storage_keys_differ)
  qed
qed

text \<open>
  Claim C1. Pressing start with a non-blank job number while a job is running gives
  exactly the state and environment that stop followed by start gives: the clock is read
  twice and the generator once in both, one entry for the running job is put in front of
  the list, closed at the first clock reading with the trimmed notes field as its note,
  and the new active job carries the trimmed job number and the second clock reading.
\<close>

theorem switch_is_stop_then_start:
  assumes "activeJob s = Some a" and "trim (jobInput s) \<noteq> []"
  shows "dispatch handleStart (s, w) = dispatch handleStart (dispatch handleStop (s, w))
    \<and> entries (fst (dispatch handleStart (s, w))) =
        \<lparr>jobNumber = jobNumber a, startTimestamp = startTimestamp a,
         entryId = uuidSource w (uuidReads w), endTimestamp = clock w (clockReads w),
         durationSeconds = (clock w (clockReads w) - startTimestamp a) div 1000,
         entryNotes = trim (notesInput s)\<rparr> # entries s
    \<and> activeJob (fst (dispatch handleStart (s, w))) =
        Some \<lparr>jobNumber = trim (jobInput s), startTimestamp = clock w (Suc (clockReads w))\<rparr>"
  using assms switch_equiv [OF assms] dispatch_start_running [OF assms]
  by simp

theorem switch_is_stop_then_start_witness:
  "activeJob sampleRunning = Some \<lparr>jobNumber = js ''JOB-1'', startTimestamp = 1700000000000\<rparr>
   \<and> trim (jobInput sampleRunning) \<noteq> []
   \<and> dispatch handleStart (sampleRunning, sampleWorld)
       = dispatch handleStart (dispatch handleStop (sampleRunning, sampleWorld))
   \<and> entries (fst (dispatch handleStart (sampleRunning, sampleWorld))) =
        [\<lparr>jobNumber = js ''JOB-1'', startTimestamp = 1700000000000,
          entryId = js ''entry-0'', endTimestamp = 1700000060000,
          durationSeconds = 60, entryNotes = js ''wiring''\<rparr>]
   \<and> activeJob (fst (dispatch handleStart (sampleRunning, sampleWorld))) =
        Some \<lparr>jobNumber = js ''JOB-2'', startTimestamp = 1700000125000\<rparr>"
proof -
  have a: "activeJob sampleRunning = Some \<lparr>jobNumber = js ''JOB-1'', startTimestamp = 1700000000000\<rparr>"
    by (simp add: sampleRunning_def)
  have j: "trim (jobInput sampleRunning) \<noteq> []"
    by (simp add: sample_job js_def)
  have w: "clock sampleWorld (clockReads sampleWorld) = 1700000060000"
    "clock sampleWorld (Suc (clockReads sampleWorld)) = 1700000125000"
    "uuidSource sampleWorld (uuidReads sampleWorld) = js ''entry-0''"
    by (simp_all add: sampleWorld_def showNat.simps js_def digitUnit_def)
  have e: "entries sampleRunning = []"
    by (simp add: sampleRunning_def)
  show ?thesis
    using switch_is_stop_then_start [OF a j, of sampleWorld] a j
    by (auto simp add: sample_job sample_notes w e)
qed

text \<open>
  The host computes \<open>Math.floor((now - start) / 1000)\<close> in floating point. When the
  difference \<open>d\<close> of the two timestamps is below \<open>2^53\<close> in absolute value, the
  subtraction is exact, and the rounded quotient \<open>r\<close> is \<open>d / 1000\<close> itself when that is
  an integer and lies within \<open>2^-10\<close> of it otherwise (the quotient is below \<open>2^44\<close>).
  The floor of such an \<open>r\<close> is \<open>d div 1000\<close>, the value that \<open>stopActiveJob\<close> stores
  here. Beyond that bound the two can differ, and nothing is stated.
\<close>

lemma floor_rounded_quotient:
  fixes d :: int and r :: rat
  assumes near: "\<bar>r - of_int d / 1000\<bar> \<le> 1 / 1024"
    and exact: "d mod 1000 = 0 \<Longrightarrow> r = of_int d / 1000"
  shows "\<lfloor>r\<rfloor> = d div 1000"
proof -
  define q m where "q = d div 1000" and "m = d mod 1000"
  define x :: rat where "x = of_int d / 1000"
  have d: "d = 1000 * q + m"
    unfolding q_def m_def by simp
  have m: "0 \<le> m" "m < 1000"
    unfolding m_def by simp_all
  have quot: "x = of_int q + of_int m / 1000"
    unfolding x_def d by simp
  show ?thesis
  proof (cases "m = 0")
    case True
    then have "r = of_int q"
      using exact quot unfolding m_def x_def by simp
    then show ?thesis
      unfolding q_def by simp
  next
    case False
    with m have "1 \<le> m" "m \<le> 999"
      by simp_all
    then have "(of_int 1 :: rat) \<le> of_int m" "(of_int m :: rat) \<le> of_int 999"
      by (simp_all only: of_int_le_iff)
    then have lo: "of_int q + 1 / 1000 \<le> x" and hi: "x \<le> of_int q + 999 / 1000"
      unfolding quot by simp_all
    from near have "r - x \<le> 1 / 1024" and "x - r \<le> 1 / 1024"
      unfolding x_def by (simp_all only: abs_le_iff) linarith+
    with lo hi have "of_int q \<le> r" and "r < of_int q + 1"
      by linarith+
    then show ?thesis
      unfolding q_def [symmetric] by (simp add: floor_unique)
  qed
qed

text \<open>
  Claim C2, as the code has it. The entry that a stop or a switch creates has the clock
  reading at stop time as its end and the session's start as its start. When the two
  differ by less than \<open>2^53\<close> milliseconds, its duration is the floor of their
  difference in seconds. End before start and a negative duration are excluded only
  when that clock reading is not earlier than the session's start; the code has no
  guard for an earlier reading.
\<close>

theorem stop_entry_duration:
  assumes "activeJob s = Some a"
    and "h = handleStop \<or> h = handleStart \<and> trim (jobInput s) \<noteq> []"
    and "\<bar>clock w (clockReads w) - startTimestamp a\<bar> < 2 ^ 53"
  shows "\<exists>e. entries (fst (dispatch h (s, w))) = e # entries s
     \<and> startTimestamp e = startTimestamp a
     \<and> endTimestamp e = clock w (clockReads w)
     \<and> durationSeconds e = (endTimestamp e - startTimestamp e) div 1000
     \<and> (startTimestamp a \<le> clock w (clockReads w) \<longrightarrow>
          startTimestamp e \<le> endTimestamp e \<and> 0 \<le> endTimestamp e - startTimestamp e
          \<and> 0 \<le> durationSeconds e)"
  using assms(2)
proof
  assume "h = handleStop"
  then show ?thesis
    by (simp add: dispatch_stop_running [OF assms(1)] pos_imp_zdiv_nonneg_iff)
next
  assume "h = handleStart \<and> trim (jobInput s) \<noteq> []"
  then show ?thesis
    by (simp add: dispatch_start_running [OF assms(1)] pos_imp_zdiv_nonneg_iff)
qed

theorem stop_entry_duration_witness:
  "activeJob sampleRunning = Some \<lparr>jobNumber = js ''JOB-1'', startTimestamp = 1700000000000\<rparr>
   \<and> (handleStop = handleStop \<or> handleStop = handleStart \<and> trim (jobInput sampleRunning) \<noteq> [])
   \<and> \<bar>clock sampleWorld (clockReads sampleWorld) - 1700000000000\<bar> < 2 ^ 53
   \<and> (\<exists>e. entries (fst (dispatch handleStop (sampleRunning, sampleWorld))) = e # entries sampleRunning
        \<and> startTimestamp e = 1700000000000 \<and> endTimestamp e = 1700000060000
        \<and> durationSeconds e = 60
        \<and> startTimestamp e \<le> endTimestamp e)"
proof -
  have a: "activeJob sampleRunning = Some \<lparr>jobNumber = js ''JOB-1'', startTimestamp = 1700000000000\<rparr>"
    by (simp add: sampleRunning_def)
  have h: "handleStop = handleStop \<or> handleStop = handleStart \<and> trim (jobInput sampleRunning) \<noteq> []"
    by simp
  have w: "clock sampleWorld (clockReads sampleWorld) = 1700000060000"
    by (simp add: sampleWorld_def)
  have b: "\<bar>clock sampleWorld (clockReads sampleWorld)
      - startTimestamp \<lparr>jobNumber = js ''JOB-1'', startTimestamp = 1700000000000\<rparr>\<bar> < 2 ^ 53"
    by (simp add: w)
  from stop_entry_duration [OF a h b]
  obtain e where e: "entries (fst (dispatch handleStop (sampleRunning, sampleWorld))) = e # entries sampleRunning"
    "startTimestamp e = 1700000000000" "endTimestamp e = 1700000060000"
    "durationSeconds e = (endTimestamp e - startTimestamp e) div 1000"
    by (auto simp add: w)
  then have "durationSeconds e = 60" "startTimestamp e \<le> endTimestamp e"
    by simp_all
  with e a h b show ?thesis
    by auto
qed

text \<open>
  Claim C2 as stated fails when the clock at stop time reads earlier than the start of the
  session: the session started at 1700000000000 and the clock reads 1699999995500, so
  the entry ends before it starts and its duration is \<open>-5\<close>.
\<close>

theorem stop_entry_negative_counterexample:
  "endTimestamp (hd (entries (fst (dispatch handleStop (sampleRunning, earlyClockWorld)))))
     < startTimestamp (hd (entries (fst (dispatch handleStop (sampleRunning, earlyClockWorld)))))
   \<and> durationSeconds (hd (entries (fst (dispatch handleStop (sampleRunning, earlyClockWorld))))) = - 5"
proof -
  have a: "activeJob sampleRunning = Some \<lparr>jobNumber = js ''JOB-1'', startTimestamp = 1700000000000\<rparr>"
    by (simp add: sampleRunning_def)
  show ?thesis
    by (simp add: dispatch_stop_running [OF a] earlyClockWorld_def sampleWorld_def)
qed

text \<open>
  Claim C7. A declined clear-all changes neither the state nor the environment. A
  confirmed one empties the entries list, clears the active job and the notes field, and
  writes this through to the store; the running session is dropped, not closed: no entry
  is built, and neither the clock nor the id generator is consulted.
\<close>

theorem clearAll_discards:
  "dispatch (handleClearAll False) (s, w) = (s, w)
   \<and> fst (dispatch (handleClearAll True) (s, w)) = s\<lparr>entries := [], activeJob := None, notesInput := []\<rparr>
   \<and> localStorage (snd (dispatch (handleClearAll True) (s, w))) STORAGE_ENTRIES = Some (js ''[]'')
   \<and> (activeJob s \<noteq> None \<longrightarrow>
        localStorage (snd (dispatch (handleClearAll True) (s, w))) STORAGE_ACTIVE = None)
   \<and> uuidReads (snd (dispatch (handleClearAll True) (s, w))) = uuidReads w
   \<and> clockReads (snd (dispatch (handleClearAll True) (s, w))) = clockReads w"
  by (simp add: dispatch_def handleClearAll_def runEffects_def persistEntries_def
      persistActive_def stringifyEntries_Nil storage_keys_differ Let_def)

theorem clearAll_discards_witness:
  "activeJob sampleHistory \<noteq> None
   \<and> entries (fst (dispatch (handleClearAll True) (sampleHistory, sampleWorld))) = []
   \<and> activeJob (fst (dispatch (handleClearAll True) (sampleHistory, sampleWorld))) = None
   \<and> localStorage (snd (dispatch (handleClearAll True) (sampleHistory, sampleWorld))) STORAGE_ACTIVE = None
   \<and> dispatch (handleClearAll False) (sampleHistory, sampleWorld) = (sampleHistory, sampleWorld)"
proof -
  have a: "activeJob sampleHistory \<noteq> None"
    by (simp add: sampleHistory_def sampleRunning_def)
  show ?thesis
    using clearAll_discards [of sampleHistory sampleWorld] a by simp
qed

text \<open>
  Claim C8. Every stop of a running job, by the stop handler or by a switch, puts the new
  entry at the head of the entries list and keeps the earlier entries behind it in their
  order.
\<close>

theorem stop_prepends:
  assumes "activeJob s = Some a"
    and "h = handleStop \<or> h = handleStart \<and> trim (jobInput s) \<noteq> []"
  shows "entries (fst (dispatch h (s, w))) =
     \<lparr>jobNumber = jobNumber a, startTimestamp = startTimestamp a,
      entryId = uuidSource w (uuidReads w), endTimestamp = clock w (clockReads w),
      durationSeconds = (clock w (clockReads w) - startTimestamp a) div 1000,
      entryNotes = trim (notesInput s)\<rparr> # entries s"
  using assms(2)
proof
  assume "h = handleStop"
  then show ?thesis
    by (simp add: dispatch_stop_running [OF assms(1)])
next
  assume "h = handleStart \<and> trim (jobInput s) \<noteq> []"
  then show ?thesis
    by (simp add: dispatch_start_running [OF assms(1)])
qed

theorem stop_prepends_witness:
  "activeJob sampleHistory = Some \<lparr>jobNumber = js ''JOB-1'', startTimestamp = 1700000000000\<rparr>
   \<and> (handleStart = handleStop \<or> handleStart = handleStart \<and> trim (jobInput sampleHistory) \<noteq> [])
   \<and> entries (fst (dispatch handleStart (sampleHistory, sampleWorld))) =
       \<lparr>jobNumber = js ''JOB-1'', startTimestamp = 1700000000000,
        entryId = js ''entry-0'', endTimestamp = 1700000060000,
        durationSeconds = 60, entryNotes = js ''wiring''\<rparr> # entries sampleHistory"
proof -
  have a: "activeJob sampleHistory = Some \<lparr>jobNumber = js ''JOB-1'', startTimestamp = 1700000000000\<rparr>"
    by (simp add: sampleHistory_def sampleRunning_def)
  have j: "trim (jobInput sampleHistory) = js ''JOB-2''"
    using sample_job by (simp add: sampleHistory_def)
  have n: "trim (notesInput sampleHistory) = js ''wiring''"
    using sample_notes by (simp add: sampleHistory_def)
  have h: "handleStart = handleStop \<or> handleStart = handleStart \<and> trim (jobInput sampleHistory) \<noteq> []"
    by (simp add: j js_def)
  have w: "clock sampleWorld (clockReads sampleWorld) = 1700000060000"
    "uuidSource sampleWorld (uuidReads sampleWorld) = js ''entry-0''"
    by (simp_all add: sampleWorld_def showNat.simps js_def digitUnit_def)
  show ?thesis
    using stop_prepends [OF a h, of sampleWorld] a h
    by (simp add: w n)
qed

text \<open>
  Claim C9. When the job number field is empty or holds white space only, the start
  handler changes nothing: the four state cells, the store, and the clock and generator
  positions are the same afterwards.
\<close>

theorem start_blank_noop:
  "\<forall>c\<in>set (jobInput s). isWhiteSpace c \<Longrightarrow> dispatch handleStart (s, w) = (s, w)"
  by (simp add: dispatch_def handleStart_def trim_blank runEffects_def)

theorem start_blank_noop_witness:
  "list_all isWhiteSpace (jobInput blankInput)
   \<and> dispatch handleStart (blankInput, sampleWorld) = (blankInput, sampleWorld)"
proof -
  have b: "\<forall>c\<in>set (jobInput blankInput). isWhiteSpace c"
    by (simp add: blankInput_def isWhiteSpace_def)
  show ?thesis
    using start_blank_noop [OF b, of sampleWorld] b by (simp add: list_all_iff)
qed

section \<open>Properties of the daily summary\<close>

lemma foldl_add_sum: "foldl (\<lambda>sum e. sum + f e) a xs = a + sum_list (map f xs)"
  by (induction xs arbitrary: a) (simp_all add: add.assoc)

lemma dailyTotal_sum: "dailyTotal today = sum_list (map durationSeconds today)"
  by (simp add: dailyTotal_def foldl_add_sum)








lemma show_300: "showInt 300 = js ''300''"
  by (simp add: js_def showInt_def showNat.simps digitUnit_def)

lemma names_not_index:
  "\<not> isArrayIndex (js ''constructor'')" "\<not> isArrayIndex (js ''JOB-1'')"
  by (simp_all add: js_def isArrayIndex_def)

lemma names_differ:
  "js ''constructor'' \<noteq> js ''__proto__''" "js ''JOB-1'' \<noteq> js ''__proto__''"
  "js ''JOB-1'' \<notin> set objectPrototypeFunctions"
  "js ''constructor'' \<in> set objectPrototypeFunctions"
  by (simp_all add: js_def objectPrototypeFunctions_def)

lemma js_append: "js a @ js b = js (a @ b)"
  by (simp add: js_def)

lemma js_Nil_iff: "js a = [] \<longleftrightarrow> a = []"
  by (simp add: js_def)






lemma map_of_setProperty: "map_of (setProperty k v m) = (map_of m)(k \<mapsto> v)"
  by (induction m) (auto simp add: fun_eq_iff)

lemma keys_setProperty: "fst ` set (setProperty k v m) = insert k (fst ` set m)"
  by (induction m) auto

lemma distinct_setProperty:
  "distinct (map fst m) \<Longrightarrow> distinct (map fst (setProperty k v m))"
proof (induction m)
  case Nil
  show ?case by simp
next
  case (Cons p m)
  then show ?case
    using keys_setProperty [of k v m] by (auto simp add: image_iff)
qed

lemma distinct_addDuration:
  "distinct (map fst m) \<Longrightarrow> distinct (map fst (addDuration P m e))"
  by (auto simp add: addDuration_def Let_def distinct_setProperty split: option.splits jsval.splits)

lemma distinct_foldl_addDuration:
  "distinct (map fst m) \<Longrightarrow> distinct (map fst (foldl (addDuration P) m today))"
  by (induction today arbitrary: m) (simp_all add: distinct_addDuration)

lemma set_insertEntry: "set (insertEntry P x ys) = insert x (set ys)"
  by (induction ys) auto

lemma set_sortEntries: "set (sortEntries P xs) = set xs"
  unfolding sortEntries_def by (induction xs) (simp_all add: set_insertEntry)

lemma distinct_insertEntry:
  "distinct (map fst (insertEntry P x ys)) \<longleftrightarrow> fst x \<notin> fst ` set ys \<and> distinct (map fst ys)"
  by (induction ys) (auto simp add: set_insertEntry)

lemma distinct_sortEntries:
  "distinct (map fst (sortEntries P xs)) \<longleftrightarrow> distinct (map fst xs)"
  unfolding sortEntries_def
  by (induction xs) (simp_all add: distinct_insertEntry set_sortEntries [unfolded sortEntries_def])

lemma set_objectEntries: "set (objectEntries m) = set m"
  by (auto simp add: objectEntries_def)

lemma distinct_objectEntries:
  assumes "distinct (map fst m)"
  shows "distinct (map fst (objectEntries m))"
proof -
  let ?ix = "filter (\<lambda>p. isArrayIndex (fst p)) m"
  let ?rest = "filter (\<lambda>p. \<not> isArrayIndex (fst p)) m"
  from assms have dm: "distinct m" and inj: "inj_on fst (set m)"
    by (simp_all add: distinct_map)
  have "distinct (sort_key (\<lambda>p. digitsValue (fst p)) ?ix @ ?rest)"
    using dm by auto
  moreover have "inj_on fst (set (sort_key (\<lambda>p. digitsValue (fst p)) ?ix @ ?rest))"
    using inj by (auto simp add: inj_on_def)
  ultimately show ?thesis
    unfolding objectEntries_def by (simp only: distinct_map)
qed

lemma jobTotals_distinct: "distinct (map fst (jobTotals P today))"
  unfolding jobTotals_def
  by (simp add: distinct_sortEntries distinct_objectEntries distinct_foldl_addDuration)

lemma map_of_jobTotals:
  "map_of (jobTotals P today) = map_of (foldl (addDuration P) [] today)"
proof -
  let ?m = "foldl (addDuration P) [] today"
  have d: "distinct (map fst ?m)"
    by (simp add: distinct_foldl_addDuration)
  have "set (jobTotals P today) = set ?m"
    by (simp add: jobTotals_def set_sortEntries set_objectEntries)
  with d jobTotals_distinct [of P today] show ?thesis
    by (simp add: map_of_inject_set)
qed



lemma addDuration_numeric:
  assumes safe: "jobNumber e \<noteq> js ''__proto__''" "jobNumber e \<notin> set objectPrototypeFunctions"
    and m: "map_of m = map_option Num \<circ> b"
  shows "map_of (addDuration P m e) =
    map_option Num \<circ>
      (b(jobNumber e \<mapsto> (case b (jobNumber e) of None \<Rightarrow> 0 | Some n \<Rightarrow> n) + durationSeconds e))"
proof (cases "b (jobNumber e)")
  case None
  with m have "map_of m (jobNumber e) = None"
    by simp
  with safe None show ?thesis
    by (auto simp add: addDuration_def Let_def map_of_setProperty m fun_eq_iff)
next
  case (Some n)
  with m have "map_of m (jobNumber e) = Some (Num n)"
    by simp
  with safe Some show ?thesis
    by (auto simp add: addDuration_def Let_def map_of_setProperty m fun_eq_iff)
qed

lemma filter_absent: "k \<notin> f ` set xs \<Longrightarrow> filter (\<lambda>x. f x = k) xs = []"
  by (induction xs) auto

lemma foldl_addDuration_numeric:
  assumes "\<forall>e\<in>set today. jobNumber e \<noteq> js ''__proto__'' \<and> jobNumber e \<notin> set objectPrototypeFunctions"
    and "map_of m = map_option Num \<circ> b"
  shows "map_of (foldl (addDuration P) m today) =
    map_option Num \<circ>
      (\<lambda>k. if k \<in> jobNumber ` set today
           then Some ((case b k of None \<Rightarrow> 0 | Some n \<Rightarrow> n)
                  + sum_list (map durationSeconds (filter (\<lambda>e. jobNumber e = k) today)))
           else b k)"
  using assms
proof (induction today arbitrary: m b)
  case Nil
  then show ?case by (simp add: fun_eq_iff)
next
  case (Cons e today)
  let ?b = "b(jobNumber e \<mapsto> (case b (jobNumber e) of None \<Rightarrow> 0 | Some n \<Rightarrow> n) + durationSeconds e)"
  from Cons.prems have step: "map_of (addDuration P m e) = map_option Num \<circ> ?b"
    by (intro addDuration_numeric) (simp_all add: comp_def)
  from Cons.prems(1) have rest: "\<forall>e\<in>set today. jobNumber e \<noteq> js ''__proto__''
      \<and> jobNumber e \<notin> set objectPrototypeFunctions"
    by simp
  show ?case
    unfolding foldl_Cons Cons.IH [OF rest step]
    by (auto simp add: fun_eq_iff filter_absent split: option.splits)
qed

lemma jobTotals_lookup:
  assumes "\<forall>e\<in>set today. jobNumber e \<noteq> js ''__proto__'' \<and> jobNumber e \<notin> set objectPrototypeFunctions"
  shows "map_of (jobTotals P today) k =
    (if k \<in> jobNumber ` set today
     then Some (Num (sum_list (map durationSeconds (filter (\<lambda>e. jobNumber e = k) today))))
     else None)"
proof -
  have "map_of ([] :: (jsstring \<times> jsval) list) = map_option Num \<circ> Map.empty"
    by (simp add: fun_eq_iff)
  from foldl_addDuration_numeric [OF assms this, of P] show ?thesis
    by (simp add: map_of_jobTotals)
qed




lemma sum_insertEntry:
  "sum_list (map f (insertEntry P x ys)) = (f x :: int) + sum_list (map f ys)"
  by (induction ys) simp_all

lemma sum_sortEntries: "sum_list (map f (sortEntries P xs)) = (sum_list (map f xs) :: int)"
  unfolding sortEntries_def by (induction xs) (simp_all add: sum_insertEntry)

lemma sum_insort_key:
  "sum_list (map f (insort_key g x xs)) = (f x :: int) + sum_list (map f xs)"
  by (induction xs) simp_all

lemma sum_sort_key: "sum_list (map f (sort_key g xs)) = (sum_list (map f xs) :: int)"
  by (induction xs) (simp_all add: sum_insort_key)

lemma sum_partition:
  "sum_list (map f (filter Q xs)) + sum_list (map f (filter (\<lambda>x. \<not> Q x) xs))
    = (sum_list (map f xs) :: int)"
  by (induction xs) simp_all

lemma sum_objectEntries: "sum_list (map f (objectEntries m)) = (sum_list (map f m) :: int)"
  by (simp add: objectEntries_def sum_sort_key sum_partition)

lemma sum_setProperty:
  "sum_list (map (secondsOf \<circ> snd) (setProperty k (Num x) m))
    = sum_list (map (secondsOf \<circ> snd) m) + x
      - (case map_of m k of None \<Rightarrow> 0 | Some v \<Rightarrow> secondsOf v)"
  by (induction m) (auto simp add: secondsOf_def)

lemma set_setProperty: "set (setProperty k v m) \<subseteq> insert (k, v) (set m)"
  by (induction m) auto

lemma addDuration_sum:
  assumes safe: "jobNumber e \<noteq> js ''__proto__''" "jobNumber e \<notin> set objectPrototypeFunctions"
    and num: "\<forall>p\<in>set m. \<exists>n. snd p = Num n"
  shows "(\<forall>p\<in>set (addDuration P m e). \<exists>n. snd p = Num n)
    \<and> sum_list (map (secondsOf \<circ> snd) (addDuration P m e))
        = sum_list (map (secondsOf \<circ> snd) m) + durationSeconds e"
proof (cases "map_of m (jobNumber e)")
  case None
  then have eq: "addDuration P m e = setProperty (jobNumber e) (Num (durationSeconds e)) m"
    using safe by (simp add: addDuration_def Let_def)
  show ?thesis
    unfolding eq using num set_setProperty [of "jobNumber e" "Num (durationSeconds e)" m]
    by (auto simp add: sum_setProperty None)
next
  case (Some v)
  then have "(jobNumber e, v) \<in> set m"
    by (rule map_of_SomeD)
  with num obtain n where v: "v = Num n"
    by fastforce
  have eq: "addDuration P m e = setProperty (jobNumber e) (Num (n + durationSeconds e)) m"
    using safe Some v by (simp add: addDuration_def Let_def)
  show ?thesis
    unfolding eq using num set_setProperty [of "jobNumber e" "Num (n + durationSeconds e)" m]
    by (auto simp add: sum_setProperty Some v secondsOf_def)
qed

lemma foldl_addDuration_sum:
  assumes "\<forall>e\<in>set today. jobNumber e \<noteq> js ''__proto__'' \<and> jobNumber e \<notin> set objectPrototypeFunctions"
    and "\<forall>p\<in>set m. \<exists>n. snd p = Num n"
  shows "(\<forall>p\<in>set (foldl (addDuration P) m today). \<exists>n. snd p = Num n)
    \<and> sum_list (map (secondsOf \<circ> snd) (foldl (addDuration P) m today))
        = sum_list (map (secondsOf \<circ> snd) m) + sum_list (map durationSeconds today)"
  using assms
proof (induction today arbitrary: m)
  case Nil
  then show ?case by simp
next
  case (Cons e today)
  from Cons.prems have step: "(\<forall>p\<in>set (addDuration P m e). \<exists>n. snd p = Num n)
    \<and> sum_list (map (secondsOf \<circ> snd) (addDuration P m e))
        = sum_list (map (secondsOf \<circ> snd) m) + durationSeconds e"
    by (intro addDuration_sum) simp_all
  from Cons.prems(1) have rest: "\<forall>e\<in>set today. jobNumber e \<noteq> js ''__proto__''
      \<and> jobNumber e \<notin> set objectPrototypeFunctions"
    by simp
  from Cons.IH [OF rest conjunct1 [OF step]] step show ?case
    by (auto simp add: comp_def)
qed

lemma jobTotals_sum:
  assumes "\<forall>e\<in>set today. jobNumber e \<noteq> js ''__proto__'' \<and> jobNumber e \<notin> set objectPrototypeFunctions"
  shows "(\<forall>p\<in>set (jobTotals P today). \<exists>n. snd p = Num n)
    \<and> sum_list (map (secondsOf \<circ> snd) (jobTotals P today)) = dailyTotal today"
proof -
  have "\<forall>p\<in>set ([] :: (jsstring \<times> jsval) list). \<exists>n. snd p = Num n"
    by simp
  from foldl_addDuration_sum [OF assms this, of P] show ?thesis
    by (simp add: jobTotals_def set_sortEntries set_objectEntries sum_sortEntries
        sum_objectEntries dailyTotal_sum)
qed

lemma sorted_insertEntry:
  assumes total: "\<And>a b. localeCompare P a b \<le> 0 \<or> localeCompare P b a \<le> 0"
    and trans: "\<And>a b c. localeCompare P a b \<le> 0 \<Longrightarrow> localeCompare P b c \<le> 0
      \<Longrightarrow> localeCompare P a c \<le> 0"
    and "sorted_wrt (\<lambda>p q. localeCompare P (fst p) (fst q) \<le> 0) ys"
  shows "sorted_wrt (\<lambda>p q. localeCompare P (fst p) (fst q) \<le> 0) (insertEntry P x ys)"
  using assms(3)
proof (induction ys)
  case Nil
  show ?case by simp
next
  case (Cons y ys)
  show ?case
  proof (cases "localeCompare P (fst x) (fst y) \<le> 0")
    case True
    with Cons.prems show ?thesis
      by (auto intro: trans)
  next
    case False
    with total [of "fst x" "fst y"] have "localeCompare P (fst y) (fst x) \<le> 0"
      by blast
    with False Cons show ?thesis
      by (auto simp add: set_insertEntry)
  qed
qed

lemma jobTotals_sorted:
  assumes total: "\<And>a b. localeCompare P a b \<le> 0 \<or> localeCompare P b a \<le> 0"
    and trans: "\<And>a b c. localeCompare P a b \<le> 0 \<Longrightarrow> localeCompare P b c \<le> 0
      \<Longrightarrow> localeCompare P a c \<le> 0"
  shows "sorted_wrt (\<lambda>p q. localeCompare P (fst p) (fst q) \<le> 0) (jobTotals P today)"
proof -
  have "sorted_wrt (\<lambda>p q. localeCompare P (fst p) (fst q) \<le> 0) (foldr (insertEntry P) xs [])" for xs
  proof (induction xs)
    case Nil
    show ?case by simp
  next
    case (Cons x xs)
    from sorted_insertEntry [OF total trans Cons] show ?case
      by simp
  qed
  then show ?thesis
    by (simp add: jobTotals_def sortEntries_def)
qed

lemma codeUnitCompare_total: "codeUnitCompare a b \<le> 0 \<or> codeUnitCompare b a \<le> 0"
  by (induction a b rule: codeUnitCompare.induct) auto

lemma codeUnitCompare_le_simps:
  "codeUnitCompare [] b \<le> 0"
  "\<not> codeUnitCompare (x # xs) [] \<le> 0"
  "codeUnitCompare (x # xs) (y # ys) \<le> 0 \<longleftrightarrow>
     unat x < unat y \<or> (unat x = unat y \<and> codeUnitCompare xs ys \<le> 0)"
  by (cases b) auto

lemma codeUnitCompare_trans:
  "codeUnitCompare a b \<le> 0 \<Longrightarrow> codeUnitCompare b c \<le> 0 \<Longrightarrow> codeUnitCompare a c \<le> 0"
proof (induction a arbitrary: b c)
  case Nil
  show ?case by (rule codeUnitCompare_le_simps)
next
  case (Cons x xs)
  from Cons.prems(1) obtain y ys where b: "b = y # ys"
    by (cases b) (simp_all only: codeUnitCompare_le_simps)
  from Cons.prems(2) obtain z zs where c: "c = z # zs"
    unfolding b by (cases c) (simp_all only: codeUnitCompare_le_simps)
  from Cons.prems have 1: "unat x < unat y \<or> (unat x = unat y \<and> codeUnitCompare xs ys \<le> 0)"
    and 2: "unat y < unat z \<or> (unat y = unat z \<and> codeUnitCompare ys zs \<le> 0)"
    unfolding b c by (simp_all only: codeUnitCompare_le_simps)
  from 1 2 Cons.IH [of ys zs]
  have "unat x < unat z \<or> (unat x = unat z \<and> codeUnitCompare xs zs \<le> 0)"
    by linarith
  then show ?case
    unfolding c by (simp only: codeUnitCompare_le_simps)
qed

lemma jobTotals_sorted_utcHost:
  "sorted_wrt (\<lambda>p q. codeUnitCompare (fst p) (fst q) \<le> 0) (jobTotals utcHost today)"
proof -
  have c: "localeCompare utcHost = codeUnitCompare"
    by (simp add: utcHost_def)
  have "sorted_wrt (\<lambda>p q. localeCompare utcHost (fst p) (fst q) \<le> 0) (jobTotals utcHost today)"
    by (rule jobTotals_sorted) (auto simp add: c codeUnitCompare_total intro: codeUnitCompare_trans)
  then show ?thesis
    by (simp only: c)
qed

text \<open>
  Claim C6 at job numbers that \<open>Object.prototype\<close> already knows. With the single
  entry of today for the job \<open>__proto__\<close> (300 seconds) the per-job totals are empty:
  the job is missing. With two entries for the job \<open>constructor\<close> (300 seconds each) its
  total is not the number 600 but the text of the built-in function followed by the
  digits \<open>300300\<close>.
\<close>

theorem jobTotals_inherited_names:
  "jobTotals P [protoEntry] = []
   \<and> jobTotals P [constructorEntry, constructorEntry] =
       [(js ''constructor'', Str (functionText P (js ''constructor'') @ js ''300300''))]"
proof -
  have "foldl (addDuration P) [] [protoEntry] = []"
    by (simp add: addDuration_def protoEntry_def)
  then have p: "jobTotals P [protoEntry] = []"
    by (simp add: jobTotals_def objectEntries_def sortEntries_def)
  have "foldl (addDuration P) [] [constructorEntry, constructorEntry] =
      [(js ''constructor'', Str (functionText P (js ''constructor'') @ js ''300300''))]"
    by (simp add: addDuration_def constructorEntry_def names_differ show_300 Let_def js_append js_Nil_iff)
  then have c: "jobTotals P [constructorEntry, constructorEntry] =
      [(js ''constructor'', Str (functionText P (js ''constructor'') @ js ''300300''))]"
    by (simp add: jobTotals_def objectEntries_def sortEntries_def names_not_index)
  from p c show ?thesis by simp
qed

text \<open>
  Claim C10 at the same kind of job number. With one entry for \<open>JOB-1\<close> (600 seconds)
  and one for \<open>__proto__\<close> (300 seconds), both of today, the per-job totals hold
  \<open>JOB-1\<close> with 600 only, while the daily total is 900.
\<close>

theorem jobTotals_sum_differs:
  "jobTotals P [jobOneEntry, protoEntry] = [(js ''JOB-1'', Num 600)]
   \<and> dailyTotal [jobOneEntry, protoEntry] = 900"
proof -
  have "foldl (addDuration P) [] [jobOneEntry, protoEntry] = [(js ''JOB-1'', Num 600)]"
    by (simp add: addDuration_def jobOneEntry_def protoEntry_def names_differ Let_def)
  then have "jobTotals P [jobOneEntry, protoEntry] = [(js ''JOB-1'', Num 600)]"
    by (simp add: jobTotals_def objectEntries_def sortEntries_def names_not_index)
  moreover have "dailyTotal [jobOneEntry, protoEntry] = 900"
    by (simp add: dailyTotal_def jobOneEntry_def protoEntry_def)
  ultimately show ?thesis by simp
qed

section \<open>Properties of the stored text\<close>

subsection \<open>Strings are read back as written\<close>

lemma unat_eq_of_nat: "unat (c :: 16 word) = n \<Longrightarrow> c = of_nat n"
  by auto

lemma unat_small: "n < 65536 \<Longrightarrow> unat (of_nat n :: 16 word) = n"
  by (simp add: unat_of_nat)

lemma unat_digitUnit: "d < 10 \<Longrightarrow> unat (digitUnit d) = 48 + d"
  unfolding digitUnit_def by (rule unat_small) simp

lemma unat_hexDigit: "d < 16 \<Longrightarrow> unat (hexDigit d) = (if d < 10 then 48 + d else 87 + d)"
  unfolding hexDigit_def by (simp add: unat_small del: of_nat_add)

lemma hexValue_hexDigit: "d < 16 \<Longrightarrow> hexValue (hexDigit d) = Some d"
  by (simp add: hexValue_def unat_hexDigit Let_def)

lemma hex_digits_sum:
  "4096 * (n div 4096) + 256 * (n div 256 mod 16) + 16 * (n div 16 mod 16) + n mod 16 = (n::nat)"
proof -
  define a b c r0 r1 r2 where "a = n div 16" and "b = n div 256" and "c = n div 4096"
    and "r0 = n mod 16" and "r1 = n div 16 mod 16" and "r2 = n div 256 mod 16"
  have ab: "a div 16 = b"
    unfolding a_def b_def by (simp add: div_mult2_eq [symmetric])
  have bc: "b div 16 = c"
    unfolding b_def c_def by (simp add: div_mult2_eq [symmetric])
  have f1: "n = 16 * a + r0"
    unfolding a_def r0_def by simp
  have f2: "a = 16 * b + r1"
    unfolding ab [symmetric] r1_def a_def by simp
  have f3: "b = 16 * c + r2"
    unfolding bc [symmetric] r2_def b_def by simp
  have "4096 * c + 256 * r2 + 16 * r1 + r0 = n"
    using f1 f2 f3 by linarith
  then show ?thesis
    unfolding a_def b_def c_def r0_def r1_def r2_def .
qed

lemma unicodeEscape_parse:
  "parseChars (unicodeEscape c @ rest) = consResult c (parseChars rest)"
proof -
  have b: "unat c < 65536"
    using unsigned_less [of c, where 'a = nat] by simp
  then have h: "unat c div 4096 < 16" "unat c div 256 mod 16 < 16"
    "unat c div 16 mod 16 < 16" "unat c mod 16 < 16"
    by simp_all
  have e: "unicodeEscape c = [0x5C, 0x75, hexDigit (unat c div 4096), hexDigit (unat c div 256 mod 16),
         hexDigit (unat c div 16 mod 16), hexDigit (unat c mod 16)]"
    by (simp add: unicodeEscape_def Let_def)
  show ?thesis
    unfolding e by (simp add: hexValue_hexDigit h hex_digits_sum)
qed


lemma quoteUnit_parse:
  "parseChars (quoteUnit c @ rest) = consResult c (parseChars rest)"
proof -
  consider "unat c = 0x08" | "unat c = 0x09" | "unat c = 0x0A" | "unat c = 0x0C"
    | "unat c = 0x0D" | "unat c = 0x22" | "unat c = 0x5C"
    | "unat c \<notin> {0x08, 0x09, 0x0A, 0x0C, 0x0D, 0x22, 0x5C}"
      "unat c < 0x20 \<or> isLeadSurrogate c \<or> isTrailSurrogate c"
    | "unat c \<notin> {0x08, 0x09, 0x0A, 0x0C, 0x0D, 0x22, 0x5C}"
      "\<not> (unat c < 0x20 \<or> isLeadSurrogate c \<or> isTrailSurrogate c)"
    by blast
  then show ?thesis
  proof cases
    case 1
    then have "c = 0x08" by (auto dest: unat_eq_of_nat)
    then show ?thesis by (simp add: quoteUnit_def simpleEscape_def)
  next
    case 2
    then have "c = 0x09" by (auto dest: unat_eq_of_nat)
    then show ?thesis by (simp add: quoteUnit_def simpleEscape_def)
  next
    case 3
    then have "c = 0x0A" by (auto dest: unat_eq_of_nat)
    then show ?thesis by (simp add: quoteUnit_def simpleEscape_def)
  next
    case 4
    then have "c = 0x0C" by (auto dest: unat_eq_of_nat)
    then show ?thesis by (simp add: quoteUnit_def simpleEscape_def)
  next
    case 5
    then have "c = 0x0D" by (auto dest: unat_eq_of_nat)
    then show ?thesis by (simp add: quoteUnit_def simpleEscape_def)
  next
    case 6
    then have "c = 0x22" by (auto dest: unat_eq_of_nat)
    then show ?thesis by (simp add: quoteUnit_def simpleEscape_def)
  next
    case 7
    then have "c = 0x5C" by (auto dest: unat_eq_of_nat)
    then show ?thesis by (simp add: quoteUnit_def simpleEscape_def)
  next
    case 8
    then have "quoteUnit c = unicodeEscape c"
      by (simp add: quoteUnit_def Let_def)
    then show ?thesis by (simp only: unicodeEscape_parse)
  next
    case 9
    then have "quoteUnit c = [c]"
      by (simp add: quoteUnit_def Let_def)
    with 9 show ?thesis
      by simp
  qed
qed

lemma surrogate_plain:
  "isLeadSurrogate c \<or> isTrailSurrogate c \<Longrightarrow>
   parseChars (c # rest) = consResult c (parseChars rest)"
  by (auto simp add: isLeadSurrogate_def isTrailSurrogate_def)

lemma parseChars_quoteUnits: "parseChars (quoteUnits s @ 0x22 # rest) = Some (s, rest)"
proof (induction s rule: quoteUnits.induct)
  case 1
  show ?case by simp
next
  case (2 c)
  show ?case by (simp add: quoteUnit_parse consResult_def)
next
  case (3 c d ds)
  show ?case
  proof (cases "isLeadSurrogate c \<and> isTrailSurrogate d")
    case True
    then have "quoteUnits (c # d # ds) = c # d # quoteUnits ds"
      by simp
    then show ?thesis
      using True 3(1)
      by (simp add: surrogate_plain consResult_def del: parseChars.simps quoteUnits.simps)
  next
    case False
    then have "quoteUnits (c # d # ds) = quoteUnit c @ quoteUnits (d # ds)"
      by (simp only: quoteUnits.simps if_not_P if_False)
    then show ?thesis
      using False 3(2)
      by (simp add: quoteUnit_parse consResult_def del: parseChars.simps quoteUnits.simps)
  qed
qed




subsection \<open>Numbers are read back as written\<close>

lemma isDigit_digitUnit: "d < 10 \<Longrightarrow> isDigit (digitUnit d)"
  by (simp add: isDigit_def unat_digitUnit)

lemma showNat_digits: "\<forall>c\<in>set (showNat n). isDigit c"
proof (induction n rule: showNat.induct)
  case (1 n)
  show ?case
  proof (cases "n < 10")
    case True
    then show ?thesis
      by (subst showNat.simps) (simp add: isDigit_digitUnit)
  next
    case False
    with 1 show ?thesis
      by (subst showNat.simps) (simp add: isDigit_digitUnit)
  qed
qed

lemma showNat_not_Nil: "showNat n \<noteq> []"
  by (subst showNat.simps) simp

lemma digitsValue_Nil: "digitsValue [] = 0"
  by (simp add: digitsValue_def)

lemma digitsValue_snoc: "digitsValue (xs @ [c]) = 10 * digitsValue xs + (unat c - 48)"
  by (simp add: digitsValue_def)

lemma digitsValue_showNat: "digitsValue (showNat n) = n"
proof (induction n rule: showNat.induct)
  case (1 n)
  show ?case
  proof (cases "n < 10")
    case True
    then show ?thesis
      by (subst showNat.simps) (simp add: digitsValue_def unat_digitUnit)
  next
    case False
    with 1 show ?thesis
      by (subst showNat.simps) (simp add: digitsValue_snoc unat_digitUnit)
  qed
qed

lemma showNat_head: "0 < n \<Longrightarrow> unat (hd (showNat n)) \<noteq> 48"
proof (induction n rule: showNat.induct)
  case (1 n)
  show ?case
  proof (cases "n < 10")
    case True
    with 1(2) show ?thesis
      by (subst showNat.simps) (simp add: unat_digitUnit)
  next
    case False
    then have "0 < n div 10" by simp
    with 1(1) False have "unat (hd (showNat (n div 10))) \<noteq> 48" by simp
    with False show ?thesis
      by (subst showNat.simps) (simp add: showNat_not_Nil)
  qed
qed

lemma showNat_long: "1 < length (showNat n) \<Longrightarrow> 0 < n"
  by (cases "n = 0") (simp_all add: showNat.simps)

lemma span_digits:
  assumes "\<forall>c\<in>set xs. isDigit c" and "\<not> isDigit c"
  shows "takeWhile isDigit (xs @ c # r) = xs" and "dropWhile isDigit (xs @ c # r) = c # r"
  using assms by (simp_all add: takeWhile_append2 dropWhile_append2)

lemma parseNumber_showNat:
  assumes "unat c = 0x2C \<or> unat c = 0x7D \<or> unat c = 0x5D"
  shows "parseNumber (showNat n @ c # r) = Some (of_nat n, c # r)"
proof -
  obtain h t where ht: "showNat n = h # t"
    using showNat_not_Nil [of n] by (cases "showNat n") auto
  have "isDigit h"
    using showNat_digits [of n] ht by simp
  then have h: "unat h \<noteq> 0x2D"
    by (simp add: isDigit_def)
  from assms have c: "\<not> isDigit c" "unat c \<noteq> 0x2E" "unat c \<noteq> 0x65" "unat c \<noteq> 0x45"
    by (auto simp add: isDigit_def)
  have sp: "takeWhile isDigit (showNat n @ c # r) = showNat n"
    "dropWhile isDigit (showNat n @ c # r) = c # r"
    using span_digits [OF showNat_digits c(1)] by simp_all
  have z: "\<not> (1 < length (showNat n) \<and> unat (hd (showNat n)) = 48)"
    using showNat_long [of n] showNat_head [of n] by blast
  have first: "(case showNat n @ c # r of [] \<Rightarrow> (False, showNat n @ c # r)
      | c' # r' \<Rightarrow> if unat c' = 0x2D then (True, r') else (False, showNat n @ c # r))
      = (False, showNat n @ c # r)"
    using h by (simp add: ht)
  show ?thesis
    unfolding parseNumber_def first
    using z c by (simp add: sp showNat_not_Nil parseFraction_def parseExponent_def
      digitsValue_showNat digitsValue_Nil Let_def)
qed




lemma parseNumber_showInt:
  assumes "unat c = 0x2C \<or> unat c = 0x7D \<or> unat c = 0x5D"
  shows "parseNumber (showInt i @ c # r) = Some (of_int i, c # r)"
proof (cases "i < 0")
  case False
  then have "showInt i = showNat (nat i)" and "rat_of_nat (nat i) = of_int i"
    by (simp_all add: showInt_def)
  then show ?thesis
    using parseNumber_showNat [OF assms, of "nat i" r] by simp
next
  case True
  let ?n = "nat (- i)"
  from assms have c: "\<not> isDigit c" "unat c \<noteq> 0x2E" "unat c \<noteq> 0x65" "unat c \<noteq> 0x45"
    by (auto simp add: isDigit_def)
  have sp: "takeWhile isDigit (showNat ?n @ c # r) = showNat ?n"
    "dropWhile isDigit (showNat ?n @ c # r) = c # r"
    using span_digits [OF showNat_digits c(1)] by simp_all
  have z: "\<not> (1 < length (showNat ?n) \<and> unat (hd (showNat ?n)) = 48)"
    using showNat_long [of ?n] showNat_head [of ?n] by blast
  from True have v: "- rat_of_nat ?n = of_int i"
    by simp
  from True have s: "showInt i = 0x2D # showNat ?n"
    by (simp add: showInt_def)
  show ?thesis
    unfolding parseNumber_def s
    using z c v by (simp add: sp showNat_not_Nil parseFraction_def parseExponent_def
      digitsValue_showNat digitsValue_Nil Let_def)
qed

lemma showInt_first:
  "\<exists>h t. showInt i = h # t \<and> (unat h = 0x2D \<or> isDigit h)"
proof (cases "i < 0")
  case True
  then show ?thesis by (simp add: showInt_def)
next
  case False
  obtain h t where ht: "showNat (nat i) = h # t"
    using showNat_not_Nil [of "nat i"] by (cases "showNat (nat i)") auto
  then have "isDigit h"
    using showNat_digits [of "nat i"] by simp
  with ht False show ?thesis by (simp add: showInt_def)
qed

subsection \<open>Values are read back as written\<close>

lemma skipSpace_plain: "\<not> isJsonSpace c \<Longrightarrow> skipSpace (c # r) = c # r"
  by (simp add: skipSpace_def)

lemma parseValue_string:
  "parseValue (Suc n) (quoteJSONString t @ rest) = Some (JStr t, rest)"
  by (simp add: quoteJSONString_def skipSpace_def isJsonSpace_def parseChars_quoteUnits)

lemma parseValue_int:
  assumes "unat c = 0x2C \<or> unat c = 0x7D \<or> unat c = 0x5D"
  shows "parseValue (Suc n) (showInt i @ c # r) = Some (JNum (of_int i), c # r)"
proof -
  obtain h t where ht: "showInt i = h # t" and h: "unat h = 0x2D \<or> isDigit h"
    using showInt_first [of i] by blast
  from h have ns: "\<not> isJsonSpace h" and nb: "unat h \<noteq> 0x7B" "unat h \<noteq> 0x5B" "unat h \<noteq> 0x22"
    by (auto simp add: isJsonSpace_def isDigit_def)
  have "parseNumber (h # t @ c # r) = Some (of_int i, c # r)"
    using parseNumber_showInt [OF assms, of i r] by (simp add: ht)
  then show ?thesis
    using h nb by (simp add: ht skipSpace_plain [OF ns])
qed


lemma parseMembers_step:
  assumes "parseValue n (t @ c # r) = Some (v, c # r)" and "unat c = 0x2C \<or> unat c = 0x7D"
  shows "parseMembers (Suc n) (serializeProperty (k, t) @ c # r) =
    (if unat c = 0x2C then consResult (k, v) (parseMembers n r) else Some ([(k, v)], r))"
proof -
  from assms(2) have ns: "\<not> isJsonSpace c"
    by (auto simp add: isJsonSpace_def)
  have q: "skipSpace (0x22 # x) = 0x22 # x" and col: "skipSpace (0x3A # x) = 0x3A # x" for x
    by (simp_all add: skipSpace_def isJsonSpace_def)
  have key: "parseChars (quoteUnits k @ 0x22 # 0x3A # t @ c # r) = Some (k, 0x3A # t @ c # r)"
    by (rule parseChars_quoteUnits)
  have ser: "serializeProperty (k, t) @ c # r = 0x22 # quoteUnits k @ 0x22 # 0x3A # t @ c # r"
    by (simp add: serializeProperty_def quoteJSONString_def)
  show ?thesis
    unfolding ser
    using assms(2) by (auto simp add: q key col assms(1) skipSpace_plain [OF ns])
qed

lemma parseElements_step:
  assumes "parseValue n (t @ c # r) = Some (v, c # r)" and "unat c = 0x2C \<or> unat c = 0x5D"
  shows "parseElements (Suc n) (t @ c # r) =
    (if unat c = 0x2C then consResult v (parseElements n r) else Some ([v], r))"
proof -
  from assms(2) have ns: "\<not> isJsonSpace c"
    by (auto simp add: isJsonSpace_def)
  show ?thesis
    using assms(2) by (auto simp add: assms(1) skipSpace_plain [OF ns])
qed

lemma parseMembers_join:
  assumes each: "\<And>k t v c r m. (k, t, v) \<in> set kvs \<Longrightarrow> unat c = 0x2C \<or> unat c = 0x7D \<Longrightarrow>
      N \<le> m \<Longrightarrow> parseValue m (t @ c # r) = Some (v, c # r)"
    and "kvs \<noteq> []" and "N + length kvs \<le> F"
  shows "parseMembers F
      (joinWith 0x2C (map (\<lambda>(k, t, v). serializeProperty (k, t)) kvs) @ 0x7D # rest)
    = Some (map (\<lambda>(k, t, v). (k, v)) kvs, rest)"
  using assms
proof (induction kvs arbitrary: F)
  case Nil
  then show ?case by simp
next
  case (Cons p ps)
  obtain k t v where p: "p = (k, t, v)"
    by (cases p) auto
  from Cons.prems(3) obtain F' where F: "F = Suc F'" and F': "N + length ps \<le> F'"
    by (cases F) auto
  then have NF: "N \<le> F'" by simp
  show ?case
  proof (cases ps)
    case Nil
    have "parseValue F' (t @ 0x7D # rest) = Some (v, 0x7D # rest)"
      by (rule Cons.prems(1) [of k]) (simp_all add: p NF)
    from parseMembers_step [OF this, of k] show ?thesis
      by (simp add: Nil p F del: parseMembers.simps)
  next
    case (Cons p' ps')
    let ?tail = "joinWith 0x2C (map (\<lambda>(k, t, v). serializeProperty (k, t)) ps) @ 0x7D # rest"
    have v: "parseValue F' (t @ 0x2C # ?tail) = Some (v, 0x2C # ?tail)"
      by (rule Cons.prems(1) [of k]) (simp_all add: p NF)
    have ih: "parseMembers F' ?tail = Some (map (\<lambda>(k, t, v). (k, v)) ps, rest)"
    proof (rule Cons.IH)
      show "ps \<noteq> []" by (simp add: Cons)
      show "N + length ps \<le> F'" by (rule F')
    next
      fix k t v c r m
      assume "(k, t, v) \<in> set ps" and "unat (c::16 word) = 0x2C \<or> unat c = 0x7D" and "N \<le> m"
      then show "parseValue m (t @ c # r) = Some (v, c # r)"
        using Cons.prems(1) [of k t v c m r] by simp
    qed
    have lhs: "joinWith 0x2C (map (\<lambda>(k, t, v). serializeProperty (k, t)) (p # ps)) @ 0x7D # rest
        = serializeProperty (k, t) @ 0x2C # ?tail"
      by (simp add: Cons p)
    have "parseMembers (Suc F') (serializeProperty (k, t) @ 0x2C # ?tail)
        = consResult (k, v) (parseMembers F' ?tail)"
      using parseMembers_step [OF v, of k] by (simp del: parseMembers.simps)
    then show ?thesis
      unfolding F lhs by (simp add: ih consResult_def p del: parseMembers.simps)
  qed
qed



lemma parseElements_join:
  assumes each: "\<And>t v c r m. (t, v) \<in> set tvs \<Longrightarrow> unat c = 0x2C \<or> unat c = 0x5D \<Longrightarrow>
      N \<le> m \<Longrightarrow> parseValue m (t @ c # r) = Some (v, c # r)"
    and "tvs \<noteq> []" and "N + length tvs \<le> F"
  shows "parseElements F (joinWith 0x2C (map fst tvs) @ 0x5D # rest) = Some (map snd tvs, rest)"
  using assms
proof (induction tvs arbitrary: F)
  case Nil
  then show ?case by simp
next
  case (Cons p ps)
  obtain t v where p: "p = (t, v)"
    by (cases p) auto
  from Cons.prems(3) obtain F' where F: "F = Suc F'" and F': "N + length ps \<le> F'"
    by (cases F) auto
  then have NF: "N \<le> F'" by simp
  show ?case
  proof (cases ps)
    case Nil
    have "parseValue F' (t @ 0x5D # rest) = Some (v, 0x5D # rest)"
      by (rule Cons.prems(1) [of t v]) (simp_all add: p NF)
    from parseElements_step [OF this] show ?thesis
      by (simp add: Nil p F del: parseElements.simps)
  next
    case (Cons p' ps')
    let ?tail = "joinWith 0x2C (map fst ps) @ 0x5D # rest"
    have v: "parseValue F' (t @ 0x2C # ?tail) = Some (v, 0x2C # ?tail)"
      by (rule Cons.prems(1) [of t v]) (simp_all add: p NF)
    have ih: "parseElements F' ?tail = Some (map snd ps, rest)"
    proof (rule Cons.IH)
      show "ps \<noteq> []" by (simp add: Cons)
      show "N + length ps \<le> F'" by (rule F')
    next
      fix t v c r m
      assume "(t, v) \<in> set ps" and "unat (c::16 word) = 0x2C \<or> unat c = 0x5D" and "N \<le> m"
      then show "parseValue m (t @ c # r) = Some (v, c # r)"
        using Cons.prems(1) [of t v c m r] by simp
    qed
    have lhs: "joinWith 0x2C (map fst (p # ps)) @ 0x5D # rest = t @ 0x2C # ?tail"
      by (simp add: Cons p)
    have "parseElements (Suc F') (t @ 0x2C # ?tail) = consResult v (parseElements F' ?tail)"
      using parseElements_step [OF v] by (simp del: parseElements.simps)
    then show ?thesis
      unfolding F lhs by (simp add: ih consResult_def p del: parseElements.simps)
  qed
qed

lemma setProperty_fresh: "k \<notin> fst ` set obj \<Longrightarrow> setProperty k v obj = obj @ [(k, v)]"
  by (induction obj) auto

lemma foldl_setProperty_distinct:
  "distinct (map fst (obj @ ms)) \<Longrightarrow>
   foldl (\<lambda>obj m. setProperty (fst m) (snd m) obj) obj ms = obj @ ms"
proof (induction ms arbitrary: obj)
  case Nil
  then show ?case by simp
next
  case (Cons m ms)
  from Cons.prems have fresh: "fst m \<notin> fst ` set obj"
    by auto
  from Cons.prems have "distinct (map fst ((obj @ [m]) @ ms))"
    by simp
  then have "foldl (\<lambda>obj m. setProperty (fst m) (snd m) obj) (obj @ [m]) ms = (obj @ [m]) @ ms"
    by (rule Cons.IH)
  then show ?case
    by (simp add: setProperty_fresh [OF fresh])
qed

lemma buildObject_distinct: "distinct (map fst ms) \<Longrightarrow> buildObject ms = JObj ms"
  using foldl_setProperty_distinct [of "[]" ms] by (simp add: buildObject_def)

lemma parseValue_object:
  assumes each: "\<And>k t v c r m. (k, t, v) \<in> set kvs \<Longrightarrow> unat c = 0x2C \<or> unat c = 0x7D \<Longrightarrow>
      N \<le> m \<Longrightarrow> parseValue m (t @ c # r) = Some (v, c # r)"
    and ne: "kvs \<noteq> []" and fuel: "N + length kvs \<le> F"
    and keys: "distinct (map fst kvs)"
  shows "parseValue (Suc F) (serializeObject (map (\<lambda>(k, t, v). (k, t)) kvs) @ rest)
    = Some (JObj (map (\<lambda>(k, t, v). (k, v)) kvs), rest)"
proof -
  let ?body = "joinWith 0x2C (map (\<lambda>(k, t, v). serializeProperty (k, t)) kvs) @ 0x7D # rest"
  have ser: "serializeObject (map (\<lambda>(k, t, v). (k, t)) kvs) @ rest = 0x7B # ?body"
    by (simp add: serializeObject_def comp_def case_prod_unfold)
  obtain y where y: "?body = 0x22 # y"
  proof (cases kvs)
    case Nil
    with ne show ?thesis by simp
  next
    case (Cons p ps)
    obtain k t v where "p = (k, t, v)" by (cases p) auto
    with Cons that show ?thesis
      by (cases ps) (simp_all add: serializeProperty_def quoteJSONString_def)
  qed
  have members: "parseMembers F ?body = Some (map (\<lambda>(k, t, v). (k, v)) kvs, rest)"
    using each ne fuel by (rule parseMembers_join)
  have "map fst (map (\<lambda>(k, t, v). (k, v)) kvs) = map fst kvs"
    by (simp add: comp_def case_prod_unfold)
  with keys have "distinct (map fst (map (\<lambda>(k, t, v). (k, v)) kvs))"
    by (simp only:)
  then have obj: "buildObject (map (\<lambda>(k, t, v). (k, v)) kvs) = JObj (map (\<lambda>(k, t, v). (k, v)) kvs)"
    by (rule buildObject_distinct)
  have sp: "skipSpace (0x7B # x) = 0x7B # x" "skipSpace (0x22 # x) = 0x22 # x" for x
    by (simp_all add: skipSpace_def isJsonSpace_def)
  have "parseValue (Suc F) (0x7B # 0x22 # y) =
      (case parseMembers F (0x22 # y) of None \<Rightarrow> None | Some (ms, r) \<Rightarrow> Some (buildObject ms, r))"
    by (simp add: sp)
  also have "\<dots> = Some (JObj (map (\<lambda>(k, t, v). (k, v)) kvs), rest)"
    using members unfolding y by (simp only: option.case prod.case obj)
  finally show ?thesis
    by (simp only: ser y)
qed




lemma parseValue_active:
  assumes "4 \<le> F"
  shows "parseValue F (stringifyActive a @ rest) = Some (activeJson a, rest)"
proof -
  let ?kvs = "[(js ''jobNumber'', quoteJSONString (jobNumber a), JStr (jobNumber a)),
               (js ''startTimestamp'', showInt (startTimestamp a), JNum (of_int (startTimestamp a)))]"
  from assms obtain F' where F: "F = Suc F'" and F': "1 + length ?kvs \<le> F'"
    by (cases F) auto
  have each: "parseValue m (t @ c # r) = Some (v, c # r)"
    if "(k, t, v) \<in> set ?kvs" and c: "unat c = 0x2C \<or> unat c = 0x7D" and m: "1 \<le> m"
    for k t v c r m
  proof -
    from m obtain m' where m': "m = Suc m'"
      by (cases m) auto
    from c have c': "unat c = 0x2C \<or> unat c = 0x7D \<or> unat c = 0x5D"
      by blast
    from that(1) consider "t = quoteJSONString (jobNumber a)" "v = JStr (jobNumber a)"
      | "t = showInt (startTimestamp a)" "v = JNum (of_int (startTimestamp a))"
      by auto
    then show ?thesis
    proof cases
      case 1
      then show ?thesis unfolding m' by (simp only: parseValue_string)
    next
      case 2
      then show ?thesis unfolding m' by (simp only: parseValue_int [OF c'])
    qed
  qed
  have keys: "distinct (map fst ?kvs)"
    by (simp add: js_def)
  have ne: "?kvs \<noteq> []"
    by simp
  have "parseValue (Suc F') (serializeObject (map (\<lambda>(k, t, v). (k, t)) ?kvs) @ rest)
      = Some (JObj (map (\<lambda>(k, t, v). (k, v)) ?kvs), rest)"
    using each ne F' keys by (rule parseValue_object)
  then show ?thesis
    by (simp add: F stringifyActive_def activeJson_def del: parseValue.simps)
qed

lemma parseValue_entry:
  assumes "8 \<le> F"
  shows "parseValue F (stringifyEntry e @ rest) = Some (entryJson e, rest)"
proof -
  let ?kvs = "[(js ''id'', quoteJSONString (entryId e), JStr (entryId e)),
               (js ''jobNumber'', quoteJSONString (jobNumber e), JStr (jobNumber e)),
               (js ''startTimestamp'', showInt (startTimestamp e), JNum (of_int (startTimestamp e))),
               (js ''endTimestamp'', showInt (endTimestamp e), JNum (of_int (endTimestamp e))),
               (js ''durationSeconds'', showInt (durationSeconds e), JNum (of_int (durationSeconds e))),
               (js ''notes'', quoteJSONString (entryNotes e), JStr (entryNotes e))]"
  from assms obtain F' where F: "F = Suc F'" and F': "1 + length ?kvs \<le> F'"
    by (cases F) auto
  have each: "parseValue m (t @ c # r) = Some (v, c # r)"
    if "(k, t, v) \<in> set ?kvs" and c: "unat c = 0x2C \<or> unat c = 0x7D" and m: "1 \<le> m"
    for k t v c r m
  proof -
    from m obtain m' where m': "m = Suc m'"
      by (cases m) auto
    from c have c': "unat c = 0x2C \<or> unat c = 0x7D \<or> unat c = 0x5D"
      by blast
    from that(1) consider s where "t = quoteJSONString s" "v = JStr s"
      | i where "t = showInt i" "v = JNum (of_int i)"
      by auto
    then show ?thesis
    proof cases
      case 1
      then show ?thesis unfolding m' by (simp only: parseValue_string)
    next
      case 2
      then show ?thesis unfolding m' by (simp only: parseValue_int [OF c'])
    qed
  qed
  have keys: "distinct (map fst ?kvs)"
    by (simp add: js_def)
  have ne: "?kvs \<noteq> []"
    by simp
  have "parseValue (Suc F') (serializeObject (map (\<lambda>(k, t, v). (k, t)) ?kvs) @ rest)
      = Some (JObj (map (\<lambda>(k, t, v). (k, v)) ?kvs), rest)"
    using each ne F' keys by (rule parseValue_object)
  then show ?thesis
    by (simp add: F stringifyEntry_def entryJson_def del: parseValue.simps)
qed



lemma length_joinWith:
  "length (joinWith sep xs) = sum_list (map length xs) + (length xs - 1)"
  by (induction sep xs rule: joinWith.induct) simp_all

lemma JSON_parse_active: "JSON_parse (stringifyActive a) = Some (activeJson a)"
proof -
  have "3 \<le> length (stringifyActive a)"
    by (simp add: stringifyActive_def serializeObject_def serializeProperty_def)
  then have "4 \<le> Suc (length (stringifyActive a))"
    by simp
  from parseValue_active [OF this, of a "[]"] show ?thesis
    by (simp add: JSON_parse_def skipSpace_def del: parseValue.simps)
qed

lemma length_stringifyEntry: "7 \<le> length (stringifyEntry e)"
  by (simp add: stringifyEntry_def serializeObject_def serializeProperty_def)

lemma sum_length_entries: "7 * length es \<le> sum_list (map length (map stringifyEntry es))"
proof (induction es)
  case Nil
  show ?case by simp
next
  case (Cons e es)
  with length_stringifyEntry [of e] show ?case by simp
qed

lemma stringifyEntry_first: "\<exists>y. stringifyEntry e = 0x7B # y"
  by (simp add: stringifyEntry_def serializeObject_def)

lemma parseValue_entries:
  assumes "es \<noteq> []" and "8 + length es \<le> F"
  shows "parseValue (Suc F) (stringifyEntries es @ rest) = Some (entriesJson es, rest)"
proof -
  let ?tvs = "map (\<lambda>e. (stringifyEntry e, entryJson e)) es"
  let ?body = "joinWith 0x2C (map fst ?tvs) @ 0x5D # rest"
  have each: "parseValue m (t @ c # r) = Some (v, c # r)"
    if "(t, v) \<in> set ?tvs" and "unat c = 0x2C \<or> unat c = 0x5D" and "8 \<le> m" for t v c r m
    using that by (auto simp add: parseValue_entry simp del: parseValue.simps)
  have ne: "?tvs \<noteq> []"
    using assms(1) by simp
  have fuel: "8 + length ?tvs \<le> F"
    using assms(2) by simp
  have elements: "parseElements F ?body = Some (map snd ?tvs, rest)"
    using each ne fuel by (rule parseElements_join)
  have vals: "map snd ?tvs = map entryJson es" and texts: "map fst ?tvs = map stringifyEntry es"
    by (simp_all add: comp_def)
  obtain e es' where es: "es = e # es'"
    using assms(1) by (cases es) auto
  obtain y where y: "?body = 0x7B # y"
    using stringifyEntry_first [of e] by (cases es') (auto simp add: es)
  have sp: "skipSpace (0x5B # x) = 0x5B # x" "skipSpace (0x7B # x) = 0x7B # x" for x
    by (simp_all add: skipSpace_def isJsonSpace_def)
  have "parseValue (Suc F) (0x5B # 0x7B # y) =
      (case parseElements F (0x7B # y) of None \<Rightarrow> None | Some (vs, r) \<Rightarrow> Some (JArr vs, r))"
    by (simp add: sp)
  also have "\<dots> = Some (JArr (map snd ?tvs), rest)"
    using elements unfolding y by (simp only: option.case prod.case)
  finally have "parseValue (Suc F) (0x5B # ?body) = Some (entriesJson es, rest)"
    by (simp only: y vals entriesJson_def)
  then show ?thesis
    by (simp add: stringifyEntries_def serializeArray_def comp_def del: parseValue.simps)
qed

lemma JSON_parse_entries: "JSON_parse (stringifyEntries es) = Some (entriesJson es)"
proof (cases "es = []")
  case True
  then show ?thesis
    by (simp add: JSON_parse_def stringifyEntries_def serializeArray_def entriesJson_def
        skipSpace_def isJsonSpace_def)
next
  case False
  have "length (stringifyEntries es) = 2 + sum_list (map length (map stringifyEntry es)) + (length es - 1)"
    by (simp add: stringifyEntries_def serializeArray_def length_joinWith)
  with sum_length_entries [of es] False have "8 + length es \<le> length (stringifyEntries es)"
    by (cases es) simp_all
  from parseValue_entries [OF False this, of "[]"] show ?thesis
    by (simp add: JSON_parse_def skipSpace_def del: parseValue.simps)
qed



subsection \<open>Persisting and loading\<close>

lemma stringify_not_Nil: "stringifyEntries es \<noteq> []" "stringifyActive a \<noteq> []"
  by (simp_all add: stringifyEntries_def serializeArray_def stringifyActive_def serializeObject_def)

lemma entryJson_inj: "entryJson e = entryJson e' \<Longrightarrow> e = e'"
  by (cases e; cases e') (simp add: entryJson_def)

lemma entriesJson_inj: "inj entriesJson"
proof (rule injI)
  fix es es' assume "entriesJson es = entriesJson es'"
  then have "map entryJson es = map entryJson es'"
    by (simp add: entriesJson_def)
  then show "es = es'"
  proof (induction es arbitrary: es')
    case Nil
    then show ?case by simp
  next
    case (Cons e es)
    then show ?case by (cases es') (auto dest: entryJson_inj)
  qed
qed

lemma activeCellJson_inj: "inj activeCellJson"
proof (rule injI)
  fix c c' assume "activeCellJson c = activeCellJson c'"
  then show "c = c'"
    by (cases c; cases c') (auto simp add: activeCellJson_def activeJson_def)
qed

lemma parse_malformed: "JSON_parse (js ''[1,2'') = None"
  by code_simp

lemma parse_empty_object: "JSON_parse (js ''{}'') = Some (JObj [])"
  by code_simp

text \<open>
  Claim C4. After the two persistence effects have run on a state, the entries cell is
  initialised from the store to the array of the state's entries, field for field, and
  the active-job cell to the state's active job, or to \<open>null\<close> when there is none. The
  active-job record holds the text of the session when there is one and is absent when
  there is none; no placeholder is stored. Different states have different values, so
  nothing is lost on the way.
\<close>

theorem persist_then_restore:
  "initialEntries (persistActive s (persistEntries s w)) = entriesJson (entries s)
   \<and> initialActiveJob (persistActive s (persistEntries s w)) = activeCellJson (activeJob s)
   \<and> localStorage (persistActive s (persistEntries s w)) STORAGE_ACTIVE
       = map_option stringifyActive (activeJob s)
   \<and> inj entriesJson \<and> inj activeCellJson"
proof -
  have k: "STORAGE_ACTIVE \<noteq> STORAGE_ENTRIES"
    using storage_keys_differ by (rule not_sym)
  have e: "initialEntries (persistActive s (persistEntries s w)) = entriesJson (entries s)"
    by (cases "activeJob s")
      (simp_all add: initialEntries_def load_def persistActive_def persistEntries_def k
        storage_keys_differ stringify_not_Nil JSON_parse_entries)
  have a: "initialActiveJob (persistActive s (persistEntries s w)) = activeCellJson (activeJob s)"
    by (cases "activeJob s")
      (simp_all add: initialActiveJob_def load_def persistActive_def persistEntries_def
        activeCellJson_def stringify_not_Nil JSON_parse_active)
  have r: "localStorage (persistActive s (persistEntries s w)) STORAGE_ACTIVE
      = map_option stringifyActive (activeJob s)"
    by (cases "activeJob s") (simp_all add: persistActive_def persistEntries_def)
  from e a r entriesJson_inj activeCellJson_inj show ?thesis
    by blast
qed

text \<open>
  Claim C3, as the code has it. \<open>load\<close> gives the fallback when the record is missing,
  when the stored text is empty, and when \<open>JSON.parse\<close> rejects the text. A non-empty
  text that parses is returned as the parsed value, without any check of its shape.
\<close>

theorem load_fallback:
  "(localStorage w key = None \<or> localStorage w key = Some []
      \<or> (\<exists>raw. localStorage w key = Some raw \<and> JSON_parse raw = None)
    \<longrightarrow> load key fallback w = fallback)
   \<and> (\<forall>raw v. localStorage w key = Some raw \<and> raw \<noteq> [] \<and> JSON_parse raw = Some v
    \<longrightarrow> load key fallback w = v)"
  by (auto simp add: load_def)

theorem load_fallback_witness:
  "localStorage malformedStore STORAGE_ENTRIES = Some (js ''[1,2'')
   \<and> JSON_parse (js ''[1,2'') = None
   \<and> initialEntries malformedStore = JArr []
   \<and> localStorage malformedStore STORAGE_ACTIVE = None
   \<and> initialActiveJob malformedStore = JNull
   \<and> localStorage wrongShapeStore STORAGE_ACTIVE = Some (js ''{}'')
   \<and> JSON_parse (js ''{}'') = Some (JObj [])
   \<and> initialActiveJob wrongShapeStore = JObj []"
proof -
  have e: "localStorage malformedStore STORAGE_ENTRIES = Some (js ''[1,2'')"
    by (simp add: malformedStore_def)
  have a: "localStorage malformedStore STORAGE_ACTIVE = None"
    using storage_keys_differ by (simp add: malformedStore_def)
  have o: "localStorage wrongShapeStore STORAGE_ACTIVE = Some (js ''{}'')"
    by (simp add: wrongShapeStore_def)
  have n: "js ''{}'' \<noteq> []"
    by (simp add: js_def)
  from load_fallback [of malformedStore STORAGE_ENTRIES "JArr []"] e parse_malformed
  have 1: "initialEntries malformedStore = JArr []"
    unfolding initialEntries_def by blast
  from load_fallback [of malformedStore STORAGE_ACTIVE JNull] a
  have 2: "initialActiveJob malformedStore = JNull"
    unfolding initialActiveJob_def by blast
  from load_fallback [of wrongShapeStore STORAGE_ACTIVE JNull] o n parse_empty_object
  have 3: "initialActiveJob wrongShapeStore = JObj []"
    unfolding initialActiveJob_def by blast
  from e a o 1 2 3 parse_malformed parse_empty_object show ?thesis
    by blast
qed

text \<open>
  Claim C3 as stated fails for a text that parses to a value of the wrong shape. With
  the text \<open>{}\<close> stored under both keys, the entries cell starts as an object without
  properties, not as the empty list, and the active-job cell as the same object, not as
  \<open>null\<close>.
\<close>

theorem load_wrong_shape_counterexample:
  "initialEntries wrongShapeStore = JObj []
   \<and> initialActiveJob wrongShapeStore = JObj []
   \<and> JObj [] \<noteq> JArr [] \<and> JObj [] \<noteq> JNull"
proof -
  have "localStorage wrongShapeStore STORAGE_ENTRIES = Some (js ''{}'')"
    "localStorage wrongShapeStore STORAGE_ACTIVE = Some (js ''{}'')"
    using storage_keys_differ by (simp_all add: wrongShapeStore_def)
  moreover have "js ''{}'' \<noteq> []"
    by (simp add: js_def)
  ultimately show ?thesis
    by (simp add: initialEntries_def initialActiveJob_def load_def parse_empty_object)
qed

end
